theory Spec2Isabelle
  imports Complex_Main "HOL-Library.Word"
begin

section \<open>Data model\<close>

text \<open>
  The program of \<^verbatim>\<open>src/main.cpp\<close> validates two arithmetic operations, appends
  levelled lines to a log file, counts outcomes in a \<^verbatim>\<open>SystemMonitor\<close> and runs a
  fixed demonstration. Its state is modelled by explicit state passing.

  Modelling decisions, one per C++ type:
  \<^item> \<^verbatim>\<open>double\<close> is the type \<open>double\<close> below: the IEEE 754 binary64 values (NaN, the
    two infinities, and the finite values with their sign, so that \<^verbatim>\<open>-0.0\<close> is a value
    of its own), with comparisons that are false on NaN and with division, product and
    square root rounded to the nearest value, ties to even.
  \<^item> \<^verbatim>\<open>int\<close> is a 32-bit word read as a signed number. C++ leaves the overflow of
    \<^verbatim>\<open>x++\<close> at \<^verbatim>\<open>INT_MAX\<close> undefined; the model takes the two's-complement
    wrap-around that the usual builds give, so \<^verbatim>\<open>INT_MAX + 1\<close> is \<^verbatim>\<open>INT_MIN\<close>.
  \<^item> \<^verbatim>\<open>std::string\<close> is \<^typ>\<open>string\<close>, one \<^typ>\<open>char\<close> per byte; the source is
    UTF-8, so an accented letter is two bytes and a check mark three.
  \<^item> an exception is a value of \<open>exc\<close>, and a function that throws returns a sum.
\<close>

subsection \<open>Exceptions\<close>

datatype exc =
    DivisionByZeroException
  | NegativeNumberException
  | InvalidInputException
  | runtime_error string

abbreviation (input) a_acute :: string where "a_acute \<equiv> [CHR 0xC3, CHR 0xA1]"
abbreviation (input) e_acute :: string where "e_acute \<equiv> [CHR 0xC3, CHR 0xA9]"
abbreviation (input) i_acute :: string where "i_acute \<equiv> [CHR 0xC3, CHR 0xAD]"
abbreviation (input) o_acute :: string where "o_acute \<equiv> [CHR 0xC3, CHR 0xB3]"
abbreviation (input) u_acute :: string where "u_acute \<equiv> [CHR 0xC3, CHR 0xBA]"
abbreviation (input) E_acute :: string where "E_acute \<equiv> [CHR 0xC3, CHR 0x89]"
abbreviation (input) O_acute :: string where "O_acute \<equiv> [CHR 0xC3, CHR 0x93]"
abbreviation (input) check_mark :: string where "check_mark \<equiv> [CHR 0xE2, CHR 0x9C, CHR 0x93]"
abbreviation (input) cross_mark :: string where "cross_mark \<equiv> [CHR 0xE2, CHR 0x9C, CHR 0x97]"
abbreviation (input) endl :: string where "endl \<equiv> [CHR 0x0A]"

text \<open>\<^verbatim>\<open>what()\<close>: the message each exception class passes to its base class.\<close>

fun what :: "exc \<Rightarrow> string" where
  "what DivisionByZeroException = ''Error: Divisi'' @ o_acute @ ''n entre cero detectada.''"
| "what NegativeNumberException =
     ''Error: N'' @ u_acute @ ''mero negativo no permitido en esta operaci'' @ o_acute @ ''n.''"
| "what InvalidInputException = ''Error: Entrada no num'' @ e_acute @ ''rica detectada.''"
| "what (runtime_error msg) = msg"

subsection \<open>IEEE 754 binary64\<close>

text \<open>
  \<open>Finite s v\<close> is the finite value with sign bit \<open>s\<close> (\<open>True\<close> for negative) and
  magnitude \<open>v \<ge> 0\<close>; \<open>Finite True 0\<close> is \<^verbatim>\<open>-0.0\<close>. \<open>Infinity s\<close> is the infinity
  with sign bit \<open>s\<close>.
\<close>

datatype double = NaN | Infinity bool | Finite bool real

text \<open>
  Rounding a magnitude \<open>x > 0\<close>. \<open>expo x\<close> is the exponent of the binade of \<open>x\<close>, not
  below that of the subnormal numbers; \<open>ulp x\<close> is the distance between neighbouring
  values there (53 significant bits); \<open>rne\<close> rounds to the nearest integer, a tie to
  the even one. A magnitude that rounds to \<open>2^1024\<close> or more overflows to infinity.
\<close>

definition expo :: "real \<Rightarrow> int" where
  "expo x = max \<lfloor>log 2 x\<rfloor> (- 1022)"

definition ulp :: "real \<Rightarrow> real" where
  "ulp x = 2 powi (expo x - 52)"

definition rne :: "real \<Rightarrow> int" where
  "rne y =
     (let n = \<lfloor>y\<rfloor>; r = y - of_int n
      in if r < 1 / 2 then n else if 1 / 2 < r then n + 1 else if even n then n else n + 1)"

definition round_mag :: "real \<Rightarrow> real" where
  "round_mag x = (if x = 0 then 0 else of_int (rne (x / ulp x)) * ulp x)"

definition round_double :: "bool \<Rightarrow> real \<Rightarrow> double" where
  "round_double s x = (if 2 ^ 1024 \<le> round_mag x then Infinity s else Finite s (round_mag x))"

text \<open>
  The magnitudes a \<^verbatim>\<open>double\<close> can have: 0 and the multiples of \<open>ulp v\<close> below
  \<open>2^1024\<close>. The type has a value for every real magnitude; \<open>is_double\<close> tells the
  values that a \<^verbatim>\<open>double\<close> can hold, and the operations below stay within them
  (\<open>is_double_fdiv\<close>, \<open>is_double_fsqrt\<close>).
\<close>

definition representable :: "real \<Rightarrow> bool" where
  "representable v =
     (v = 0 \<or> 0 < v \<and> v < 2 ^ 1024 \<and> of_int \<lfloor>v / ulp v\<rfloor> = v / ulp v)"

fun is_double :: "double \<Rightarrow> bool" where
  "is_double NaN = True"
| "is_double (Infinity s) = True"
| "is_double (Finite s v) = representable v"

definition with_sign :: "bool \<Rightarrow> real \<Rightarrow> real" where
  "with_sign s v = (if s then - v else v)"

text \<open>The comparisons \<^verbatim>\<open><\<close>, \<^verbatim>\<open>==\<close> and \<^verbatim>\<open><=\<close>: false when an operand is NaN.\<close>

fun flt :: "double \<Rightarrow> double \<Rightarrow> bool" where
  "flt NaN b = False"
| "flt a NaN = False"
| "flt (Infinity s) (Infinity t) = (s \<and> \<not> t)"
| "flt (Infinity s) (Finite t v) = s"
| "flt (Finite s u) (Infinity t) = (\<not> t)"
| "flt (Finite s u) (Finite t v) = (with_sign s u < with_sign t v)"

fun feq :: "double \<Rightarrow> double \<Rightarrow> bool" where
  "feq NaN b = False"
| "feq a NaN = False"
| "feq (Infinity s) (Infinity t) = (s = t)"
| "feq (Infinity s) (Finite t v) = False"
| "feq (Finite s u) (Infinity t) = False"
| "feq (Finite s u) (Finite t v) = (with_sign s u = with_sign t v)"

definition fle :: "double \<Rightarrow> double \<Rightarrow> bool" where
  "fle a b = (flt a b \<or> feq a b)"

text \<open>The operations \<^verbatim>\<open>/\<close>, \<^verbatim>\<open>*\<close> and \<^verbatim>\<open>sqrt\<close>.\<close>

fun fdiv :: "double \<Rightarrow> double \<Rightarrow> double" where
  "fdiv NaN b = NaN"
| "fdiv a NaN = NaN"
| "fdiv (Infinity s) (Infinity t) = NaN"
| "fdiv (Infinity s) (Finite t v) = Infinity (s \<noteq> t)"
| "fdiv (Finite s u) (Infinity t) = Finite (s \<noteq> t) 0"
| "fdiv (Finite s u) (Finite t v) =
     (if v = 0 then (if u = 0 then NaN else Infinity (s \<noteq> t))
      else round_double (s \<noteq> t) (u / v))"

fun fmul :: "double \<Rightarrow> double \<Rightarrow> double" where
  "fmul NaN b = NaN"
| "fmul a NaN = NaN"
| "fmul (Infinity s) (Infinity t) = Infinity (s \<noteq> t)"
| "fmul (Infinity s) (Finite t v) = (if v = 0 then NaN else Infinity (s \<noteq> t))"
| "fmul (Finite s u) (Infinity t) = (if u = 0 then NaN else Infinity (s \<noteq> t))"
| "fmul (Finite s u) (Finite t v) = round_double (s \<noteq> t) (u * v)"

fun fsqrt :: "double \<Rightarrow> double" where
  "fsqrt NaN = NaN"
| "fsqrt (Infinity s) = (if s then NaN else Infinity False)"
| "fsqrt (Finite s v) =
     (if v = 0 then Finite s 0 else if s then NaN else round_double False (sqrt v))"

text \<open>
  The conversion of an \<^verbatim>\<open>int\<close> to \<^verbatim>\<open>double\<close>, which is exact: every 32-bit integer
  is a \<^verbatim>\<open>double\<close>. The literals of the source (\<^verbatim>\<open>0\<close>, \<^verbatim>\<open>10\<close>, \<^verbatim>\<open>-5\<close>, \<^verbatim>\<open>100.0\<close>)
  are such values.
\<close>

definition double_of_int :: "int \<Rightarrow> double" where
  "double_of_int i = Finite (i < 0) \<bar>of_int i\<bar>"

subsection \<open>32-bit integers\<close>

type_synonym int32 = "32 word"

subsection \<open>Validated arithmetic\<close>

definition dividir :: "double \<Rightarrow> double \<Rightarrow> exc + double" where
  "dividir a b =
     (if feq b (double_of_int 0) then Inl DivisionByZeroException
      else if flt a (double_of_int 0) \<or> flt b (double_of_int 0) then Inl NegativeNumberException
      else Inr (fdiv a b))"

definition raizCuadrada :: "double \<Rightarrow> exc + double" where
  "raizCuadrada num =
     (if flt num (double_of_int 0) then Inl NegativeNumberException
      else Inr (fsqrt num))"

subsection \<open>The C++ library: stream formatting\<close>

text \<open>
  An output stream carries formatting flags: the notation for floating-point numbers
  (\<^verbatim>\<open>std::fixed\<close> or the default one) and the precision. A stream starts with the
  default notation and precision 6.
\<close>

datatype floatfield = default_notation | fixed_notation

record fmtflags =
  float_notation :: floatfield
  precision :: nat

definition default_flags :: fmtflags where
  "default_flags = \<lparr>float_notation = default_notation, precision = 6\<rparr>"

text \<open>
  The two library functions that turn a \<^verbatim>\<open>double\<close> into text are parameters of the
  model: \<open>to_string\<close> is \<^verbatim>\<open>std::to_string\<close>, and \<open>put_double flags x\<close> is what
  \<^verbatim>\<open>stream << x\<close> writes on a stream whose flags are \<open>flags\<close>.
\<close>

record stdlib =
  to_string :: "double \<Rightarrow> string"
  put_double :: "fmtflags \<Rightarrow> double \<Rightarrow> string"

text \<open>
  \<^verbatim>\<open>stream << n\<close> for an integer: its decimal digits, with a sign when negative. An
  \<^verbatim>\<open>int\<close> \<open>x\<close> is written as \<open>put_int (sint x)\<close>.
\<close>

definition digit_char :: "nat \<Rightarrow> char" where
  "digit_char d = ''0123456789'' ! d"

fun put_nat :: "nat \<Rightarrow> string" where
  "put_nat n = (if n < 10 then [digit_char n] else put_nat (n div 10) @ [digit_char (n mod 10)])"

declare put_nat.simps [simp del]

definition put_int :: "int \<Rightarrow> string" where
  "put_int i = (if i < 0 then CHR ''-'' # put_nat (nat (- i)) else put_nat (nat i))"

subsection \<open>The world outside the program\<close>

text \<open>
  The log file is the list of the entries appended to it, oldest first. \<open>log_line\<close> is
  the text of an entry in the file; its timestamp is read from the system clock, so it
  is an argument there and no part of an entry. The console is the list of the pieces
  of text written to \<^verbatim>\<open>std::cout\<close> and \<^verbatim>\<open>std::cerr\<close>, one per statement, in program
  order. \<open>cout_flags\<close> are the formatting flags of \<^verbatim>\<open>std::cout\<close>, which persist
  from one statement to the next.
\<close>

datatype LogLevel = INFO | WARNING | ERROR | CRITICAL | DEBUG

datatype ostream = Cout | Cerr

record world =
  logfile :: "(LogLevel \<times> string) list"
  console :: "(ostream \<times> string) list"
  cout_flags :: fmtflags

definition print :: "ostream \<Rightarrow> string \<Rightarrow> world \<Rightarrow> world" where
  "print os text w = w\<lparr>console := console w @ [(os, text)]\<rparr>"

subsection \<open>Logger\<close>

fun levelStr :: "LogLevel \<Rightarrow> string" where
  "levelStr INFO = ''INFO''"
| "levelStr WARNING = ''WARNING''"
| "levelStr ERROR = ''ERROR''"
| "levelStr CRITICAL = ''CRITICAL''"
| "levelStr DEBUG = ''DEBUG''"

definition log_line :: "string \<Rightarrow> LogLevel \<times> string \<Rightarrow> string" where
  "log_line timestamp entry =
     ''['' @ timestamp @ ''] '' @ ''['' @ levelStr (fst entry) @ ''] '' @ snd entry @ endl"

definition log' :: "LogLevel \<Rightarrow> string \<Rightarrow> world \<Rightarrow> world" where
  "log' level message w = w\<lparr>logfile := logfile w @ [(level, message)]\<rparr>"

text \<open>
  The constructor: \<open>opens\<close> tells whether the file can be opened for appending. The
  destructor writes the last entry.
\<close>

definition Logger_ctor :: "bool \<Rightarrow> string \<Rightarrow> world \<Rightarrow> exc + world" where
  "Logger_ctor opens fname w =
     (if \<not> opens then Inl (runtime_error (''No se pudo abrir el archivo de log: '' @ fname))
      else Inr (log' INFO ''Sistema iniciado'' w))"

definition Logger_dtor :: "world \<Rightarrow> world" where
  "Logger_dtor w = log' INFO ''Sistema finalizado'' w"

definition logException :: "exc \<Rightarrow> world \<Rightarrow> world" where
  "logException ex w = log' ERROR (''Excepci'' @ o_acute @ ''n capturada: '' @ what ex) w"

text \<open>
  \<open>logMetrics\<close> builds its message in a string stream of its own, which has the
  default flags.
\<close>

definition logMetrics :: "stdlib \<Rightarrow> int32 \<Rightarrow> int32 \<Rightarrow> int32 \<Rightarrow> world \<Rightarrow> world" where
  "logMetrics L totalOps successOps failedOps w =
     log' INFO
       (''M'' @ e_acute @ ''tricas - Total: '' @ put_int (sint totalOps)
        @ '' | Exitosas: '' @ put_int (sint successOps)
        @ '' | Fallidas: '' @ put_int (sint failedOps)
        @ '' | Tasa de '' @ e_acute @ ''xito: ''
        @ put_double L default_flags
            (if 0 < sint totalOps
             then fdiv (fmul (double_of_int (sint successOps)) (double_of_int 100))
                    (double_of_int (sint totalOps))
             else double_of_int 0)
        @ ''%'') w"

subsection \<open>SystemMonitor\<close>

text \<open>
  The three counters. The monitor's reference to the logger is the \<open>world\<close> that
  \<open>showMetrics\<close> takes and returns.
\<close>

record SystemMonitor =
  totalOperations :: int32
  successfulOperations :: int32
  failedOperations :: int32

definition SystemMonitor_ctor :: SystemMonitor where
  "SystemMonitor_ctor =
     \<lparr>totalOperations = 0, successfulOperations = 0, failedOperations = 0\<rparr>"

definition recordSuccess :: "SystemMonitor \<Rightarrow> SystemMonitor" where
  "recordSuccess m =
     m\<lparr>totalOperations := totalOperations m + 1,
       successfulOperations := successfulOperations m + 1\<rparr>"

definition recordFailure :: "SystemMonitor \<Rightarrow> SystemMonitor" where
  "recordFailure m =
     m\<lparr>totalOperations := totalOperations m + 1,
       failedOperations := failedOperations m + 1\<rparr>"

definition showMetrics :: "stdlib \<Rightarrow> SystemMonitor \<Rightarrow> world \<Rightarrow> world" where
  "showMetrics L m w =
     (let w1 = print Cout ([CHR 0x0A] @ ''========== M'' @ E_acute @ ''TRICAS DEL SISTEMA =========='' @ endl) w;
          w2 = print Cout (''Total de operaciones: '' @ put_int (sint (totalOperations m)) @ endl) w1;
          w3 = print Cout (''Operaciones exitosas: '' @ put_int (sint (successfulOperations m)) @ endl) w2;
          w4 = print Cout (''Operaciones fallidas: '' @ put_int (sint (failedOperations m)) @ endl) w3;
          w5 = (if 0 < sint (totalOperations m) then
                  (let successRate =
                         fdiv (fmul (double_of_int (sint (successfulOperations m))) (double_of_int 100))
                           (double_of_int (sint (totalOperations m)));
                       flags = \<lparr>float_notation = fixed_notation, precision = 2\<rparr>
                   in print Cout (''Tasa de '' @ e_acute @ ''xito: '' @ put_double L flags successRate @ ''%'' @ endl)
                        (w4\<lparr>cout_flags := flags\<rparr>))
                else w4);
          w6 = print Cout (''=========================================='' @ endl) w5
      in logMetrics L (totalOperations m) (successfulOperations m) (failedOperations m) w6)"

subsection \<open>The batch runner\<close>

text \<open>
  One iteration of the loop of \<open>procesarListaNumeros\<close>, for the pair \<open>(a, b)\<close> at index
  \<open>i\<close>. The three handlers are those of the source, in its order. The pause that ends
  an iteration changes neither the world nor the monitor.
\<close>

definition iteracion ::
  "stdlib \<Rightarrow> nat \<Rightarrow> double \<Rightarrow> double \<Rightarrow> world \<times> SystemMonitor \<Rightarrow> world \<times> SystemMonitor" where
  "iteracion L i a b s =
     (let w = fst s; monitor = snd s;
          w1 = print Cout ([CHR 0x0A] @ ''Operaci'' @ o_acute @ ''n #'' @ put_nat (i + 1) @ '': ''
                 @ put_double L (cout_flags w) a @ '' / '' @ put_double L (cout_flags w) b @ endl) w;
          w2 = log' DEBUG (''Procesando operaci'' @ o_acute @ ''n: '' @ to_string L a
                 @ '' / '' @ to_string L b) w1
      in case dividir a b of
           Inr resultado \<Rightarrow>
             (let w3 = print Cout (check_mark @ '' Resultado: ''
                         @ put_double L (cout_flags w2) resultado @ endl) w2;
                  w4 = log' INFO (''Operaci'' @ o_acute @ ''n exitosa. Resultado: ''
                         @ to_string L resultado) w3
              in (w4, recordSuccess monitor))
         | Inl DivisionByZeroException \<Rightarrow>
             (logException DivisionByZeroException
                (print Cerr (cross_mark @ '' '' @ what DivisionByZeroException @ endl) w2),
              recordFailure monitor)
         | Inl NegativeNumberException \<Rightarrow>
             (logException NegativeNumberException
                (print Cerr (cross_mark @ '' '' @ what NegativeNumberException @ endl) w2),
              recordFailure monitor)
         | Inl ex \<Rightarrow>
             (logException ex
                (print Cerr (cross_mark @ '' Excepci'' @ o_acute @ ''n inesperada: ''
                   @ what ex @ endl) w2),
              recordFailure monitor))"

function procesar_desde ::
  "stdlib \<Rightarrow> (double \<times> double) list \<Rightarrow> nat \<Rightarrow> world \<times> SystemMonitor \<Rightarrow> world \<times> SystemMonitor" where
  "procesar_desde L pares i s =
     (if i < length pares
      then procesar_desde L pares (i + 1) (iteracion L i (fst (pares ! i)) (snd (pares ! i)) s)
      else s)"
  by pat_completeness auto
termination
  by (relation "measure (\<lambda>(L, pares, i, s). length pares - i)") auto

declare procesar_desde.simps [simp del]

definition procesarListaNumeros ::
  "stdlib \<Rightarrow> (double \<times> double) list \<Rightarrow> world \<times> SystemMonitor \<Rightarrow> world \<times> SystemMonitor" where
  "procesarListaNumeros L pares s =
     (let w1 = print Cout ([CHR 0x0A] @ ''===== PROCESAMIENTO EN TIEMPO REAL ====='' @ endl) (fst s);
          w2 = log' INFO (''Iniciando procesamiento de lista de n'' @ u_acute @ ''meros'') w1;
          s' = procesar_desde L pares 0 (w2, snd s)
      in (log' INFO ''Procesamiento de lista completado'' (fst s'), snd s'))"

subsection \<open>The demonstration: \<open>main\<close>\<close>

text \<open>
  A block of \<open>main\<close> either ends normally or lets an exception escape; the escaping
  exception is returned with the world as it is when it is thrown, since unwinding
  still runs the logger's destructor on it.
\<close>

definition listaOperaciones :: "(double \<times> double) list" where
  "listaOperaciones =
     [(double_of_int 100, double_of_int 5), (double_of_int 50, double_of_int 0),
      (double_of_int 81, double_of_int 9), (double_of_int (- 10), double_of_int 2),
      (double_of_int 200, double_of_int 10), (double_of_int 7, double_of_int 0),
      (double_of_int 144, double_of_int 12), (double_of_int (- 50), double_of_int (- 5))]"

text \<open>PRUEBA 1: only \<open>DivisionByZeroException\<close> is handled.\<close>

definition prueba1 ::
  "stdlib \<Rightarrow> world \<times> SystemMonitor \<Rightarrow> exc \<times> world + world \<times> SystemMonitor" where
  "prueba1 L s =
     (let monitor = snd s;
          w1 = print Cout ([CHR 0x0A] @ ''--- PRUEBA 1: Divisi'' @ o_acute @ ''n entre cero ---'' @ endl) (fst s);
          w2 = log' INFO ''Intentando dividir 10 / 0'' w1
      in case dividir (double_of_int 10) (double_of_int 0) of
           Inr resultado \<Rightarrow>
             Inr (print Cout (''Resultado: '' @ put_double L (cout_flags w2) resultado @ endl) w2,
                  recordSuccess monitor)
         | Inl DivisionByZeroException \<Rightarrow>
             Inr (logException DivisionByZeroException
                    (print Cerr (cross_mark @ '' '' @ what DivisionByZeroException @ endl) w2),
                  recordFailure monitor)
         | Inl ex \<Rightarrow> Inl (ex, w2))"

text \<open>PRUEBA 2: only \<open>NegativeNumberException\<close> is handled.\<close>

definition prueba2 ::
  "stdlib \<Rightarrow> world \<times> SystemMonitor \<Rightarrow> exc \<times> world + world \<times> SystemMonitor" where
  "prueba2 L s =
     (let monitor = snd s;
          w1 = print Cout ([CHR 0x0A] @ ''--- PRUEBA 2: N'' @ u_acute @ ''meros negativos ---'' @ endl) (fst s);
          w2 = log' INFO ''Intentando dividir -5 / 2'' w1
      in case dividir (double_of_int (- 5)) (double_of_int 2) of
           Inr resultado \<Rightarrow>
             Inr (print Cout (''Resultado: '' @ put_double L (cout_flags w2) resultado @ endl) w2,
                  recordSuccess monitor)
         | Inl NegativeNumberException \<Rightarrow>
             Inr (logException NegativeNumberException
                    (print Cerr (cross_mark @ '' '' @ what NegativeNumberException @ endl) w2),
                  recordFailure monitor)
         | Inl ex \<Rightarrow> Inl (ex, w2))"

text \<open>PRUEBA 3: every exception is handled.\<close>

definition prueba3 ::
  "stdlib \<Rightarrow> world \<times> SystemMonitor \<Rightarrow> exc \<times> world + world \<times> SystemMonitor" where
  "prueba3 L s =
     (let monitor = snd s;
          w1 = print Cout ([CHR 0x0A] @ ''--- PRUEBA 3: Divisi'' @ o_acute @ ''n v'' @ a_acute @ ''lida ---'' @ endl) (fst s);
          w2 = log' INFO ''Intentando dividir 100 / 5'' w1
      in case dividir (double_of_int 100) (double_of_int 5) of
           Inr resultado \<Rightarrow>
             (let w3 = print Cout (check_mark @ '' Resultado: ''
                         @ put_double L (cout_flags w2) resultado @ endl) w2;
                  w4 = log' INFO (''Operaci'' @ o_acute @ ''n exitosa: 100 / 5 = 20'') w3
              in Inr (w4, recordSuccess monitor))
         | Inl ex \<Rightarrow>
             Inr (logException ex (print Cerr (cross_mark @ '' '' @ what ex @ endl) w2),
                  recordFailure monitor))"

text \<open>
  The body of the \<^verbatim>\<open>try\<close> block of \<open>main\<close> after the two constructors. It returns the
  world and the monitor as they are at the end of the block.
\<close>

definition demostracion ::
  "stdlib \<Rightarrow> world \<times> SystemMonitor \<Rightarrow> exc \<times> world + world \<times> SystemMonitor" where
  "demostracion L s =
     (let w1 = print Cout (''========================================'' @ endl) (fst s);
          w2 = print Cout ('' SISTEMA DE MONITOREO Y LOGGING'' @ endl) w1;
          w3 = print Cout (''========================================'' @ endl) w2
      in case prueba1 L (w3, snd s) of
           Inl e \<Rightarrow> Inl e
         | Inr s1 \<Rightarrow>
        (case prueba2 L s1 of
           Inl e \<Rightarrow> Inl e
         | Inr s2 \<Rightarrow>
        (case prueba3 L s2 of
           Inl e \<Rightarrow> Inl e
         | Inr s3 \<Rightarrow>
             (let s4 = procesarListaNumeros L listaOperaciones s3;
                  w5 = showMetrics L (snd s4) (fst s4);
                  w6 = print Cout ([CHR 0x0A] @ check_mark @ '' Verifica el archivo '' @ [CHR 0x27]
                         @ ''system.log'' @ [CHR 0x27] @ '' para ver los registros completos.'' @ endl) w5;
                  w7 = print Cout ([CHR 0x0A] @ ''========================================'' @ endl) w6;
                  w8 = print Cout ('' EJECUCI'' @ O_acute @ ''N COMPLETADA'' @ endl) w7;
                  w9 = print Cout (''========================================'' @ endl) w8
              in Inr (w9, snd s4)))))"

text \<open>
  \<open>main\<close> returns the exit code and the world it leaves. \<open>opens\<close> tells whether
  \<^verbatim>\<open>system.log\<close> can be opened.
\<close>

definition main :: "stdlib \<Rightarrow> bool \<Rightarrow> world \<Rightarrow> int \<times> world" where
  "main L opens w0 =
     (case Logger_ctor opens ''system.log'' w0 of
        Inl ex \<Rightarrow>
          (1, print Cerr (''Error cr'' @ i_acute @ ''tico del sistema: '' @ what ex @ endl) w0)
      | Inr w1 \<Rightarrow>
          (case demostracion L (w1, SystemMonitor_ctor) of
             Inl (ex, w) \<Rightarrow>
               (1, print Cerr (''Error cr'' @ i_acute @ ''tico del sistema: '' @ what ex @ endl)
                     (Logger_dtor w))
           | Inr (w, monitor) \<Rightarrow> (0, Logger_dtor w)))"

subsection \<open>Sequences of calls on a monitor\<close>

text \<open>
  The two operations that change a monitor, as values, and a monitor after a sequence
  of them, first call first.
\<close>

datatype monitor_call = call_recordSuccess | call_recordFailure

fun perform :: "monitor_call \<Rightarrow> SystemMonitor \<Rightarrow> SystemMonitor" where
  "perform call_recordSuccess m = recordSuccess m"
| "perform call_recordFailure m = recordFailure m"

definition after_calls :: "monitor_call list \<Rightarrow> SystemMonitor \<Rightarrow> SystemMonitor" where
  "after_calls cs m = fold perform cs m"

subsection \<open>What one pair contributes to a batch\<close>

text \<open>
  Read off \<open>iteracion\<close>: whether the division of a pair succeeds, the call on the
  monitor that its iteration makes, and the two entries that its iteration appends to
  the log file (the announcement and the outcome).
\<close>

definition exitosa :: "double \<times> double \<Rightarrow> bool" where
  "exitosa p = (case dividir (fst p) (snd p) of Inr resultado \<Rightarrow> True | Inl ex \<Rightarrow> False)"

definition llamada :: "double \<times> double \<Rightarrow> monitor_call" where
  "llamada p = (if exitosa p then call_recordSuccess else call_recordFailure)"

definition entradas :: "stdlib \<Rightarrow> double \<times> double \<Rightarrow> (LogLevel \<times> string) list" where
  "entradas L p =
     [(DEBUG, ''Procesando operaci'' @ o_acute @ ''n: '' @ to_string L (fst p) @ '' / ''
              @ to_string L (snd p)),
      (case dividir (fst p) (snd p) of
         Inr resultado \<Rightarrow>
           (INFO, ''Operaci'' @ o_acute @ ''n exitosa. Resultado: '' @ to_string L resultado)
       | Inl ex \<Rightarrow> (ERROR, ''Excepci'' @ o_acute @ ''n capturada: '' @ what ex))]"

subsection \<open>A world and a library to run the program in\<close>

text \<open>
  The world at the start of a process: nothing written yet, \<^verbatim>\<open>std::cout\<close> with the
  default flags. \<open>stdlib_blank\<close> is a library whose conversions of a \<^verbatim>\<open>double\<close> write
  nothing; the counters of a monitor do not depend on the library.
\<close>

definition world_start :: world where
  "world_start = \<lparr>logfile = [], console = [], cout_flags = default_flags\<rparr>"

definition stdlib_blank :: stdlib where
  "stdlib_blank = \<lparr>to_string = (\<lambda>x. []), put_double = (\<lambda>flags x. [])\<rparr>"

definition monitor_at_INT_MAX :: SystemMonitor where
  "monitor_at_INT_MAX =
     \<lparr>totalOperations = 2147483647, successfulOperations = 2147483647, failedOperations = 0\<rparr>"

section \<open>IEEE 754 rounding: properties\<close>

lemma powr_powi: "2 powr (real_of_int e) = 2 powi e"
  by (simp add: powr_real_of_int')

lemma floor_log2_iff:
  "0 < x \<Longrightarrow> \<lfloor>log 2 x\<rfloor> = e \<longleftrightarrow> 2 powi e \<le> x \<and> x < 2 powi (e + 1)"
  using floor_log_eq_powr_iff [of x 2 e] powr_powi [of e] powr_powi [of "e + 1"]
  by simp

lemma expo_eqI:
  assumes "2 powi e \<le> x" "x < 2 powi (e + 1)" "- 1022 \<le> e"
  shows "expo x = e"
proof -
  have "(0::real) < 2 powi e" by simp
  with assms(1) have x: "0 < x" by linarith
  have "\<lfloor>log 2 x\<rfloor> = e"
    using assms x by (simp add: floor_log2_iff)
  with assms(3) show ?thesis by (simp add: expo_def)
qed

lemma floor_log2_bounds:
  assumes "0 < x"
  shows "2 powi \<lfloor>log 2 x\<rfloor> \<le> x" "x < 2 powi (\<lfloor>log 2 x\<rfloor> + 1)"
  using floor_log2_iff [OF assms, of "\<lfloor>log 2 x\<rfloor>"] by simp_all

lemma rne_error: "\<bar>of_int (rne y) - y\<bar> \<le> 1 / 2"
proof -
  have "of_int \<lfloor>y\<rfloor> \<le> y" "y < of_int \<lfloor>y\<rfloor> + 1" by linarith+
  then show ?thesis by (auto simp: rne_def Let_def)
qed

lemma rne_of_int [simp]: "rne (of_int n) = n"
  by (simp add: rne_def)


lemma pow2_mono: "a \<le> b \<Longrightarrow> (2::real) powi a \<le> 2 powi b"
  by (rule power_int_increasing) simp_all

lemma pow2_less_imp: "(2::real) powi a < 2 powi b \<Longrightarrow> a < b"
  using pow2_mono [of b a] by (cases "a < b") auto

lemma expo_normal:
  assumes "2 powi (- 1022) \<le> x"
  shows "expo x = \<lfloor>log 2 x\<rfloor>" "2 powi expo x \<le> x" "x < 2 powi (expo x + 1)"
proof -
  have "(0::real) < 2 powi (- 1022)" by (rule zero_less_power_int) simp
  with assms have x: "0 < x" by linarith
  have "2 powi (- 1022) < (2::real) powi (\<lfloor>log 2 x\<rfloor> + 1)"
    using assms floor_log2_bounds(2) [OF x] by linarith
  then have "- 1022 < \<lfloor>log 2 x\<rfloor> + 1" by (rule pow2_less_imp)
  then show e: "expo x = \<lfloor>log 2 x\<rfloor>" by (simp add: expo_def)
  show "2 powi expo x \<le> x" "x < 2 powi (expo x + 1)"
    unfolding e using floor_log2_bounds [OF x] by simp_all
qed

lemma expo_subnormal:
  assumes "0 < x" "x < 2 powi (- 1022)"
  shows "expo x = - 1022"
proof -
  have "(2::real) powi \<lfloor>log 2 x\<rfloor> < 2 powi (- 1022)"
    using assms floor_log2_bounds(1) [OF assms(1)] by linarith
  then have "\<lfloor>log 2 x\<rfloor> < - 1022" by (rule pow2_less_imp)
  then show ?thesis by (simp add: expo_def)
qed

lemma ulp_pos: "0 < ulp x"
  unfolding ulp_def by (rule zero_less_power_int) simp

lemma round_mag_error: "\<bar>round_mag x - x\<bar> \<le> ulp x / 2"
proof (cases "x = 0")
  case True
  then show ?thesis using ulp_pos [of 0] by (simp add: round_mag_def)
next
  case False
  have "round_mag x - x = (of_int (rne (x / ulp x)) - x / ulp x) * ulp x"
    using False ulp_pos [of x] by (simp add: round_mag_def field_simps)
  then have "\<bar>round_mag x - x\<bar> = \<bar>of_int (rne (x / ulp x)) - x / ulp x\<bar> * ulp x"
    using ulp_pos [of x] by (simp add: abs_mult)
  also have "\<dots> \<le> 1 / 2 * ulp x"
    using rne_error [of "x / ulp x"] ulp_pos [of x] by (intro mult_right_mono) simp_all
  finally show ?thesis by simp
qed

lemma ulp_normal_le:
  assumes "2 powi (- 1022) \<le> x"
  shows "ulp x \<le> x / 2 ^ 52"
proof -
  have "ulp x = 2 powi expo x / 2 ^ 52"
    by (simp add: ulp_def power_int_diff)
  with expo_normal(2) [OF assms] show ?thesis by (simp add: divide_right_mono)
qed

lemma round_mag_relative:
  assumes "2 powi (- 1022) \<le> x"
  shows "\<bar>round_mag x - x\<bar> \<le> x / 2 ^ 53"
proof -
  have "\<bar>round_mag x - x\<bar> \<le> ulp x / 2" by (rule round_mag_error)
  also have "\<dots> \<le> (x / 2 ^ 52) / 2" using ulp_normal_le [OF assms] by simp
  also have "\<dots> = x / 2 ^ 53" by simp
  finally show ?thesis .
qed


lemma rne_le: "y \<le> of_int k \<Longrightarrow> rne y \<le> k"
proof -
  assume a: "y \<le> of_int k"
  have f: "of_int \<lfloor>y\<rfloor> \<le> y" by simp
  show ?thesis
  proof (cases "y = of_int k")
    case True then show ?thesis by simp
  next
    case False
    with a have "y < of_int k" by simp
    then have "\<lfloor>y\<rfloor> < k" using f by linarith
    then show ?thesis by (auto simp: rne_def Let_def)
  qed
qed

lemma rne_less: "y < of_int k + 1 / 2 \<Longrightarrow> rne y \<le> k"
proof -
  assume a: "y < of_int k + 1 / 2"
  have f: "of_int \<lfloor>y\<rfloor> \<le> y" "y < of_int \<lfloor>y\<rfloor> + 1" by linarith+
  from a f have "\<lfloor>y\<rfloor> \<le> k" by linarith
  then show ?thesis using a by (auto simp: rne_def Let_def)
qed

lemma rne_nonneg: "0 \<le> y \<Longrightarrow> 0 \<le> rne y"
  by (auto simp: rne_def Let_def)

lemma round_mag_nonneg: "0 \<le> x \<Longrightarrow> 0 \<le> round_mag x"
  using ulp_pos [of x] by (simp add: round_mag_def rne_nonneg)


lemma pow2_add: "(2::real) powi (a + b) = 2 powi a * 2 powi b"
  by (rule power_int_add) simp

lemma expo_ge: "- 1022 \<le> expo x" and expo_ge_floor: "\<lfloor>log 2 x\<rfloor> \<le> expo x"
  by (simp_all add: expo_def)

lemma expo_upper:
  assumes "0 < x"
  shows "x < 2 powi (expo x + 1)"
proof -
  have "x < 2 powi (\<lfloor>log 2 x\<rfloor> + 1)" by (rule floor_log2_bounds(2) [OF assms])
  also have "\<dots> \<le> 2 powi (expo x + 1)" using expo_ge_floor [of x] by (intro pow2_mono) simp
  finally show ?thesis .
qed

lemma pow2_expo_succ: "2 powi (expo x + 1) = 2 ^ 53 * ulp x"
proof -
  have "expo x + 1 = 53 + (expo x - 52)" by simp
  then have "(2::real) powi (expo x + 1) = 2 powi 53 * 2 powi (expo x - 52)"
    by (simp only: pow2_add)
  then show ?thesis by (simp add: ulp_def)
qed

lemma round_mag_le_binade:
  assumes "0 < x"
  shows "round_mag x \<le> 2 powi (expo x + 1)"
proof -
  have "x / ulp x \<le> 2 ^ 53"
    using expo_upper [OF assms] ulp_pos [of x] by (simp add: pow2_expo_succ pos_divide_le_eq)
  then have "x / ulp x \<le> of_int (2 ^ 53)" by simp
  then have "rne (x / ulp x) \<le> 2 ^ 53" by (rule rne_le)
  then have "real_of_int (rne (x / ulp x)) \<le> real_of_int (2 ^ 53)"
    by (simp only: of_int_le_iff)
  then have "real_of_int (rne (x / ulp x)) \<le> 2 ^ 53" by simp
  then have "of_int (rne (x / ulp x)) * ulp x \<le> 2 ^ 53 * ulp x"
    using ulp_pos [of x] by (intro mult_right_mono) simp_all
  with assms show ?thesis by (simp add: round_mag_def pow2_expo_succ)
qed

lemma round_mag_less_binade:
  assumes "0 < x" "x < 2 powi (expo x + 1) - 2 powi (expo x - 53)"
  shows "round_mag x < 2 powi (expo x + 1)"
proof -
  have h: "2 powi (expo x - 53) = ulp x / 2"
  proof -
    have "expo x - 53 = (expo x - 52) + (- 1)" by simp
    then have "(2::real) powi (expo x - 53) = 2 powi (expo x - 52) * 2 powi (- 1)"
      by (simp only: pow2_add)
    then show ?thesis by (simp add: ulp_def)
  qed
  from assms(2) have "x < 2 ^ 53 * ulp x - ulp x / 2"
    unfolding pow2_expo_succ h .
  also have "\<dots> = (2 ^ 53 - 1 / 2) * ulp x"
    by (simp only: left_diff_distrib)
  finally have "x < (2 ^ 53 - 1 / 2) * ulp x" .
  then have "x / ulp x < 2 ^ 53 - 1 / 2"
    using ulp_pos [of x] by (simp add: pos_divide_less_eq)
  then have "x / ulp x < of_int (2 ^ 53 - 1) + 1 / 2" by simp
  then have "rne (x / ulp x) \<le> 2 ^ 53 - 1" by (rule rne_less)
  then have "real_of_int (rne (x / ulp x)) \<le> real_of_int (2 ^ 53 - 1)"
    by (simp only: of_int_le_iff)
  then have "real_of_int (rne (x / ulp x)) \<le> 2 ^ 53 - 1" by simp
  then have "of_int (rne (x / ulp x)) * ulp x \<le> (2 ^ 53 - 1) * ulp x"
    using ulp_pos [of x] by (intro mult_right_mono) simp_all
  also have "\<dots> < 2 ^ 53 * ulp x"
    using ulp_pos [of x] by (simp add: algebra_simps)
  finally show ?thesis using assms(1) by (simp add: round_mag_def pow2_expo_succ)
qed

lemma expo_le_1023:
  assumes "0 < x" "x < 2 powi 1024"
  shows "expo x \<le> 1023"
proof (rule ccontr)
  assume "\<not> expo x \<le> 1023"
  then have e: "1024 \<le> expo x" by simp
  then have "expo x = \<lfloor>log 2 x\<rfloor>" by (simp add: expo_def max_def split: if_splits)
  then have "2 powi expo x \<le> x" using floor_log2_bounds(1) [OF assms(1)] by simp
  moreover have "(2::real) powi 1024 \<le> 2 powi expo x" using e by (rule pow2_mono)
  ultimately show False using assms(2) by linarith
qed

lemma round_mag_finite:
  assumes "0 \<le> x" "x < 2 powi 1024 - 2 powi 970"
  shows "round_mag x < 2 powi 1024"
proof (cases "x = 0")
  case True
  then show ?thesis by (simp add: round_mag_def)
next
  case False
  with assms(1) have x: "0 < x" by simp
  have "(0::real) < 2 powi 970" by simp
  with assms(2) have "x < 2 powi 1024" by linarith
  then have e: "expo x \<le> 1023" by (rule expo_le_1023 [OF x])
  show ?thesis
  proof (cases "expo x = 1023")
    case True
    with assms(2) have "x < 2 powi (expo x + 1) - 2 powi (expo x - 53)" by simp
    from round_mag_less_binade [OF x this] True show ?thesis by simp
  next
    case False
    with e have "expo x + 1 \<le> 1023" by simp
    then have "(2::real) powi (expo x + 1) \<le> 2 powi 1023" by (rule pow2_mono)
    moreover have "(2::real) powi 1023 < 2 powi 1024"
      by (rule power_int_strict_increasing) simp_all
    ultimately show ?thesis using round_mag_le_binade [OF x] by linarith
  qed
qed

lemma representable_range: "representable v \<Longrightarrow> 0 \<le> v \<and> v < 2 powi 1024"
  by (auto simp: representable_def)

lemma representable_ge_min:
  assumes "representable v" "0 < v"
  shows "2 powi (- 1074) \<le> v"
proof -
  from assms have i: "of_int \<lfloor>v / ulp v\<rfloor> = v / ulp v" by (auto simp: representable_def)
  have "0 < v / ulp v" using assms(2) ulp_pos [of v] by simp
  with i have "0 < \<lfloor>v / ulp v\<rfloor>" by linarith
  then have "1 \<le> v / ulp v" using i by linarith
  then have "ulp v \<le> v" using ulp_pos [of v] by (simp add: pos_le_divide_eq)
  moreover have "2 powi (- 1074) \<le> ulp v"
    unfolding ulp_def using expo_ge [of v] by (intro pow2_mono) simp
  ultimately show ?thesis by linarith
qed

lemma round_mag_representable:
  assumes "representable v"
  shows "round_mag v = v"
proof (cases "v = 0")
  case True
  then show ?thesis by (simp add: round_mag_def)
next
  case False
  with assms have i: "of_int \<lfloor>v / ulp v\<rfloor> = v / ulp v" by (auto simp: representable_def)
  have "rne (v / ulp v) = \<lfloor>v / ulp v\<rfloor>"
    using rne_of_int [of "\<lfloor>v / ulp v\<rfloor>"] unfolding i .
  then have "of_int (rne (v / ulp v)) = v / ulp v" by (simp only: i)
  moreover have "ulp v \<noteq> 0" using ulp_pos [of v] by simp
  ultimately show ?thesis using False by (simp add: round_mag_def)
qed


lemma pow2_1024: "(2::real) powi 1024 = 2 ^ 1024"
  by (rule power_int_numeral)

lemma sqrt_round_close:
  assumes "representable v" "0 < v"
  shows "round_mag (sqrt v) < 2 powi 1024"
    and "0 \<le> round_mag (sqrt v)"
    and "\<bar>(round_mag (sqrt v))\<^sup>2 - v\<bar> \<le> v / 2 ^ 51"
proof -
  let ?x = "sqrt v"
  let ?r = "round_mag ?x"
  have x: "0 < ?x" using assms(2) by simp
  have xx: "?x * ?x = v" using assms(2) by simp
  have "((2::real) powi (- 537))\<^sup>2 = 2 powi (- 537 + - 537)"
    by (simp only: pow2_add power2_eq_square)
  then have "((2::real) powi (- 537))\<^sup>2 \<le> v"
    using representable_ge_min [OF assms] by simp
  then have "2 powi (- 537) \<le> ?x" by (rule real_le_rsqrt)
  moreover have "(2::real) powi (- 1022) \<le> 2 powi (- 537)" by (rule pow2_mono) simp
  ultimately have low: "2 powi (- 1022) \<le> ?x" by linarith
  have "((2::real) powi 512)\<^sup>2 = 2 powi (512 + 512)"
    by (simp only: pow2_add power2_eq_square)
  then have "v < ((2::real) powi 512)\<^sup>2"
    using representable_range [OF assms(1)] by simp
  then have high: "?x < 2 powi 512" by (intro real_less_lsqrt) simp_all
  have d: "\<bar>?r - ?x\<bar> \<le> ?x / 2 ^ 53" by (rule round_mag_relative [OF low])
  have "?x / 2 ^ 53 \<le> ?x" using x by (simp add: field_simps)
  with d have r2: "?r \<le> 2 * ?x" by linarith
  have "(2::real) * 2 powi 512 = 2 powi (1 + 512)" by (simp only: pow2_add) simp
  moreover have "(2::real) powi (1 + 512) \<le> 2 powi 1024" by (rule pow2_mono) simp
  ultimately show "?r < 2 powi 1024" using r2 high by linarith
  show r0: "0 \<le> ?r" using x by (intro round_mag_nonneg) simp
  have "?r\<^sup>2 - v = (?r - ?x) * (?r + ?x)"
    using xx by (simp add: power2_eq_square algebra_simps)
  then have "\<bar>?r\<^sup>2 - v\<bar> = \<bar>?r - ?x\<bar> * \<bar>?r + ?x\<bar>" by (simp add: abs_mult)
  also have "\<dots> \<le> (?x / 2 ^ 53) * (3 * ?x)"
  proof (rule mult_mono)
    show "\<bar>?r - ?x\<bar> \<le> ?x / 2 ^ 53" by (rule d)
    show "\<bar>?r + ?x\<bar> \<le> 3 * ?x" using r0 r2 x by linarith
    show "0 \<le> ?x / 2 ^ 53" using x by simp
    show "0 \<le> \<bar>?r + ?x\<bar>" by simp
  qed
  also have "\<dots> = 3 * v / 2 ^ 53" using xx by (simp add: field_simps)
  also have "\<dots> \<le> v / 2 ^ 51" using assms(2) by (simp add: field_simps)
  finally show "\<bar>?r\<^sup>2 - v\<bar> \<le> v / 2 ^ 51" .
qed

lemma representable_0 [simp]: "representable 0"
  by (simp add: representable_def)

lemma is_double_nonneg: "is_double (Finite s v) \<Longrightarrow> 0 \<le> v"
  using representable_range [of v] by simp

lemma zero_double [simp]: "double_of_int 0 = Finite False 0"
  by (simp add: double_of_int_def)

text \<open>
  C2. A divisor that compares equal to zero (\<^verbatim>\<open>0.0\<close> or \<^verbatim>\<open>-0.0\<close>) is rejected with
  \<open>DivisionByZeroException\<close> whatever the dividend is, a negative one, an infinity or
  NaN included: the zero test is the first statement of \<open>dividir\<close>.
\<close>

theorem dividir_zero_divisor:
  "feq b (double_of_int 0) \<Longrightarrow> dividir a b = Inl DivisionByZeroException"
  by (simp add: dividir_def)

theorem dividir_zero_divisor_witness:
  "dividir (double_of_int (- 5)) (double_of_int 0) = Inl DivisionByZeroException
   \<and> dividir NaN (Finite True 0) = Inl DivisionByZeroException"
  using dividir_zero_divisor [of "double_of_int 0" "double_of_int (- 5)"]
    dividir_zero_divisor [of "Finite True 0" NaN]
  by (simp add: with_sign_def)

text \<open>
  C3. With a divisor that does not compare equal to zero, a dividend or a divisor that
  compares below zero is rejected with \<open>NegativeNumberException\<close>.
\<close>

theorem dividir_negative_operand:
  "\<not> feq b (double_of_int 0) \<Longrightarrow> flt a (double_of_int 0) \<or> flt b (double_of_int 0)
   \<Longrightarrow> dividir a b = Inl NegativeNumberException"
  by (simp add: dividir_def)

theorem dividir_negative_operand_witness:
  "dividir (double_of_int (- 10)) (double_of_int 2) = Inl NegativeNumberException
   \<and> dividir (double_of_int 10) (double_of_int (- 2)) = Inl NegativeNumberException
   \<and> dividir (double_of_int (- 50)) (double_of_int (- 5)) = Inl NegativeNumberException
   \<and> dividir NaN (Infinity True) = Inl NegativeNumberException"
  using dividir_negative_operand [of "double_of_int 2" "double_of_int (- 10)"]
    dividir_negative_operand [of "double_of_int (- 2)" "double_of_int 10"]
    dividir_negative_operand [of "double_of_int (- 5)" "double_of_int (- 50)"]
    dividir_negative_operand [of "Infinity True" NaN]
  by (simp add: double_of_int_def with_sign_def)

lemma fle_zero_cases:
  assumes "fle (Finite False 0) a"
  shows "\<not> flt a (Finite False 0)"
  using assms by (cases a) (auto simp: fle_def with_sign_def split: if_splits)

lemma flt_zero_cases:
  assumes "flt (Finite False 0) b"
  shows "\<not> feq b (Finite False 0)" "\<not> flt b (Finite False 0)"
  using assms by (cases b; auto simp: with_sign_def split: if_splits)+

lemma dividir_succeeds:
  assumes "fle (double_of_int 0) a" "flt (double_of_int 0) b"
  shows "dividir a b = Inr (fdiv a b)"
  using fle_zero_cases [of a] flt_zero_cases [of b] assms by (simp add: dividir_def)


lemma round_double_finite:
  "round_mag x = r \<Longrightarrow> r < 2 ^ 1024 \<Longrightarrow> round_double s x = Finite s r"
  by (simp add: round_double_def)

lemma round_double_exact: "representable v \<Longrightarrow> round_double s v = Finite s v"
  by (auto simp: round_double_def round_mag_representable representable_def)

lemma representable_of_nat:
  assumes "n < 2 ^ 53"
  shows "representable (real n)"
proof (cases "n = 0")
  case True
  then show ?thesis by (simp add: representable_def)
next
  case False
  let ?x = "real n"
  have x1: "1 \<le> ?x" using False by simp
  have "(2::real) powi (- 1022) \<le> 2 powi 0" by (rule pow2_mono) simp
  then have low: "2 powi (- 1022) \<le> ?x" using x1 by simp
  have "?x < 2 ^ 53" using assms by (metis of_nat_less_iff of_nat_numeral of_nat_power)
  then have x53: "?x < 2 powi 53" by simp
  with expo_normal(2) [OF low] have "(2::real) powi expo ?x < 2 powi 53" by linarith
  then have e: "expo ?x < 53" by (rule pow2_less_imp)
  define k where "k = nat (52 - expo ?x)"
  have "(2::real) powi (52 - expo ?x) = 2 ^ k"
    using e by (simp add: k_def power_int_nonneg_exp)
  moreover have "(2::real) powi (52 - expo ?x) * 2 powi (expo ?x - 52) = 2 powi 0"
    by (simp only: pow2_add [symmetric]) simp
  ultimately have u: "2 ^ k * ulp ?x = 1" by (simp add: ulp_def)
  have "?x / ulp ?x = ?x * (2 ^ k * ulp ?x) / ulp ?x" by (simp only: u mult_1_right)
  also have "\<dots> = ?x * 2 ^ k" using ulp_pos [of ?x] by simp
  also have "\<dots> = of_int (int n * 2 ^ k)" by simp
  finally have i: "?x / ulp ?x = of_int (int n * 2 ^ k)" .
  have "(2::real) powi 53 \<le> 2 powi 1024" by (rule pow2_mono) simp
  with x53 have "?x < 2 ^ 1024" by (simp only: pow2_1024 [symmetric])
  moreover have "of_int \<lfloor>?x / ulp ?x\<rfloor> = ?x / ulp ?x" by (simp only: i floor_of_int)
  ultimately show ?thesis using x1 by (simp only: representable_def) simp
qed

lemma is_double_of_int: "\<bar>i\<bar> < 2 ^ 53 \<Longrightarrow> is_double (double_of_int i)"
proof -
  assume a: "\<bar>i\<bar> < 2 ^ 53"
  then have "nat \<bar>i\<bar> < 2 ^ 53" by (simp add: nat_less_iff)
  then have "representable (real (nat \<bar>i\<bar>))" by (rule representable_of_nat)
  moreover have "real (nat \<bar>i\<bar>) = \<bar>real_of_int i\<bar>" by simp
  ultimately show ?thesis by (simp add: double_of_int_def)
qed

lemma fdiv_ints:
  assumes "m = n * k" "0 < k" "0 \<le> n" "n < 2 ^ 53" "0 \<le> m"
  shows "fdiv (double_of_int m) (double_of_int k) = double_of_int n"
proof -
  have k0: "real_of_int k \<noteq> 0" using assms(2) by simp
  have "real_of_int m / real_of_int k = real_of_int n" using assms(1) k0 by simp
  moreover have "representable (real_of_int n)"
    using representable_of_nat [of "nat n"] assms(3,4) by (simp add: nat_less_iff)
  ultimately show ?thesis
    using assms(2,3,5) k0 by (simp add: double_of_int_def round_double_exact)
qed


lemma positive_divisor:
  assumes "is_double (Finite t v)" "flt (double_of_int 0) (Finite t v)"
  shows "\<not> t" "0 < v"
  using assms is_double_nonneg [OF assms(1)] by (auto simp: with_sign_def split: if_splits)

lemma nonneg_dividend:
  assumes "is_double (Finite s u)" "fle (double_of_int 0) (Finite s u)" "0 < u"
  shows "\<not> s"
  using assms by (auto simp: fle_def with_sign_def split: if_splits)

lemma round_double_normal:
  assumes "2 powi (- 1022) \<le> q" "q < 2 powi 1024 - 2 powi 970"
  shows "\<exists>r. round_double s q = Finite s r \<and> \<bar>r - q\<bar> \<le> q / 2 ^ 53"
proof -
  have "(0::real) < 2 powi (- 1022)" by simp
  with assms(1) have "0 \<le> q" by linarith
  then have "round_mag q < 2 powi 1024" using assms(2) by (rule round_mag_finite)
  then have "round_double s q = Finite s (round_mag q)"
    by (simp only: round_double_def pow2_1024) simp
  with round_mag_relative [OF assms(1)] show ?thesis by blast
qed

text \<open>
  C4. For a dividend \<open>a >= 0\<close> and a divisor \<open>b > 0\<close>, \<open>dividir\<close> raises nothing and
  returns the quotient \<^verbatim>\<open>a / b\<close> of the two doubles. For finite operands that is the
  exact quotient rounded to the nearest double (or to infinity on overflow); when the
  exact quotient lies in the range of the normal numbers, the result is finite and
  differs from it by at most the fraction \<open>2^-53\<close> of it.
\<close>

theorem dividir_quotient:
  assumes "is_double a" "is_double b"
    and "fle (double_of_int 0) a" "flt (double_of_int 0) b"
  shows "dividir a b = Inr (fdiv a b)
    \<and> (\<forall>s u t v. a = Finite s u \<and> b = Finite t v \<longrightarrow> fdiv a b = round_double s (u / v))
    \<and> (\<forall>s u t v. a = Finite s u \<and> b = Finite t v
          \<and> 2 powi (- 1022) \<le> u / v \<and> u / v < 2 powi 1024 - 2 powi 970
        \<longrightarrow> (\<exists>r. fdiv a b = Finite False r \<and> \<bar>r - u / v\<bar> \<le> u / v / 2 ^ 53))"
proof (intro conjI allI impI)
  show "dividir a b = Inr (fdiv a b)" using assms(3,4) by (rule dividir_succeeds)
next
  fix s u t v
  assume "a = Finite s u \<and> b = Finite t v"
  then show "fdiv a b = round_double s (u / v)"
    using positive_divisor [of t v] assms(2,4) by simp
next
  fix s u t v
  assume h: "a = Finite s u \<and> b = Finite t v
          \<and> 2 powi (- 1022) \<le> u / v \<and> u / v < 2 powi 1024 - 2 powi 970"
  then have tv: "\<not> t" "0 < v" using positive_divisor [of t v] assms(2,4) by simp_all
  have "(0::real) < 2 powi (- 1022)" by simp
  with h have "0 < u / v" by linarith
  with tv have "0 < u" by (simp add: zero_less_divide_iff)
  moreover have "is_double (Finite s u)" "fle (double_of_int 0) (Finite s u)"
    using assms(1,3) h by auto
  ultimately have "\<not> s" using nonneg_dividend [of s u] by blast
  with tv h have "fdiv a b = round_double False (u / v)" by simp
  with round_double_normal [of "u / v" False] h
  show "\<exists>r. fdiv a b = Finite False r \<and> \<bar>r - u / v\<bar> \<le> u / v / 2 ^ 53" by simp
qed

theorem dividir_quotient_witness:
  "dividir (double_of_int 100) (double_of_int 5) = Inr (double_of_int 20)
   \<and> fdiv (double_of_int 0) (double_of_int 7) = round_double False (0 / 7)
   \<and> (\<exists>r. fdiv (double_of_int 1) (double_of_int 3) = Finite False r
          \<and> \<bar>r - 1 / 3\<bar> \<le> 1 / 3 / 2 ^ 53)"
proof -
  have third: "\<exists>r. fdiv (double_of_int 1) (double_of_int 3) = Finite False r
          \<and> \<bar>r - 1 / 3\<bar> \<le> 1 / 3 / 2 ^ 53"
  proof -
    have d: "is_double (double_of_int 1)" "is_double (double_of_int 3)"
      by (simp_all add: is_double_of_int)
    have c: "fle (double_of_int 0) (double_of_int 1)" "flt (double_of_int 0) (double_of_int 3)"
      by (simp_all add: double_of_int_def fle_def with_sign_def)
    have e: "double_of_int 1 = Finite False 1" "double_of_int 3 = Finite False 3"
      by (simp_all add: double_of_int_def)
    have r: "(2::real) powi (- 1022) \<le> 1 / 3" "(1::real) / 3 < 2 powi 1024 - 2 powi 970"
      by simp_all
    from dividir_quotient [OF d c] e r show ?thesis by blast
  qed
  have d: "is_double (double_of_int 100)" "is_double (double_of_int 5)"
    "is_double (double_of_int 0)" "is_double (double_of_int 7)"
    by (simp_all add: is_double_of_int)
  have c: "fle (double_of_int 0) (double_of_int 100)" "flt (double_of_int 0) (double_of_int 5)"
    "fle (double_of_int 0) (double_of_int 0)" "flt (double_of_int 0) (double_of_int 7)"
    by (simp_all add: double_of_int_def fle_def with_sign_def)
  have "fdiv (double_of_int 100) (double_of_int 5) = double_of_int 20"
    by (rule fdiv_ints) simp_all
  with dividir_quotient [OF d(1,2) c(1,2)] dividir_quotient [OF d(3,4) c(3,4)]
  have "dividir (double_of_int 100) (double_of_int 5) = Inr (double_of_int 20)
   \<and> fdiv (double_of_int 0) (double_of_int 7) = round_double False (0 / 7)"
    by (simp add: double_of_int_def)
  with third show ?thesis by blast
qed

text \<open>
  C5. A radicand below zero is rejected with \<open>NegativeNumberException\<close>. A radicand
  \<open>x >= 0\<close> raises nothing and gives a result \<open>r >= 0\<close>; for a finite \<open>x\<close> the square of
  \<open>r\<close> differs from \<open>x\<close> by at most the fraction \<open>2^-51\<close> of \<open>x\<close>, and for the
  infinite radicand the result is infinite.
\<close>

theorem raizCuadrada_spec:
  assumes "is_double x"
  shows "(flt x (double_of_int 0) \<longrightarrow> raizCuadrada x = Inl NegativeNumberException)
    \<and> (fle (double_of_int 0) x \<longrightarrow> (\<exists>r. raizCuadrada x = Inr r \<and> fle (double_of_int 0) r))
    \<and> (\<forall>s v. x = Finite s v \<and> fle (double_of_int 0) x
        \<longrightarrow> (\<exists>t r. raizCuadrada x = Inr (Finite t r) \<and> fle (double_of_int 0) (Finite t r)
              \<and> 0 \<le> r \<and> \<bar>r\<^sup>2 - v\<bar> \<le> v / 2 ^ 51))
    \<and> (x = Infinity False \<longrightarrow> raizCuadrada x = Inr (Infinity False))"
proof -
  have neg: "flt x (double_of_int 0) \<longrightarrow> raizCuadrada x = Inl NegativeNumberException"
    by (simp add: raizCuadrada_def)
  have inf: "x = Infinity False \<longrightarrow> raizCuadrada x = Inr (Infinity False)"
    by (simp add: raizCuadrada_def)
  have fin: "\<exists>t r. raizCuadrada x = Inr (Finite t r) \<and> fle (double_of_int 0) (Finite t r)
      \<and> 0 \<le> r \<and> \<bar>r\<^sup>2 - v\<bar> \<le> v / 2 ^ 51"
    if h: "x = Finite s v \<and> fle (double_of_int 0) x" for s v
  proof (cases "v = 0")
    case True
    with h show ?thesis by (simp add: raizCuadrada_def fle_def with_sign_def)
  next
    case False
    have rep: "representable v" using assms h by simp
    with False have v: "0 < v" using representable_range [of v] by simp
    have "is_double (Finite s v)" "fle (double_of_int 0) (Finite s v)" using assms h by auto
    then have s: "\<not> s" using v by (rule nonneg_dividend)
    have "round_double False (sqrt v) = Finite False (round_mag (sqrt v))"
      using sqrt_round_close(1) [OF rep v] by (simp only: round_double_def pow2_1024) simp
    with s v h have "raizCuadrada x = Inr (Finite False (round_mag (sqrt v)))"
      by (simp add: raizCuadrada_def with_sign_def)
    moreover have "fle (double_of_int 0) (Finite False (round_mag (sqrt v)))"
      using sqrt_round_close(2) [OF rep v] by (auto simp: fle_def with_sign_def)
    ultimately show ?thesis using sqrt_round_close(2,3) [OF rep v] by blast
  qed
  have ok: "\<exists>r. raizCuadrada x = Inr r \<and> fle (double_of_int 0) r" if h: "fle (double_of_int 0) x"
  proof (cases x)
    case NaN
    with h show ?thesis by (simp add: fle_def)
  next
    case (Infinity s)
    with h show ?thesis by (simp add: fle_def raizCuadrada_def)
  next
    case (Finite s v)
    with fin [of s v] h show ?thesis by blast
  qed
  from neg inf fin ok show ?thesis by blast
qed

theorem raizCuadrada_spec_witness:
  "raizCuadrada (double_of_int (- 1)) = Inl NegativeNumberException
   \<and> (\<exists>r. raizCuadrada (double_of_int 4) = Inr r \<and> fle (double_of_int 0) r)
   \<and> (\<exists>t r. raizCuadrada (double_of_int 2) = Inr (Finite t r)
         \<and> fle (double_of_int 0) (Finite t r) \<and> 0 \<le> r \<and> \<bar>r\<^sup>2 - 2\<bar> \<le> 2 / 2 ^ 51)
   \<and> raizCuadrada (Infinity False) = Inr (Infinity False)"
proof -
  have inf: "raizCuadrada (Infinity False) = Inr (Infinity False)"
    using raizCuadrada_spec [of "Infinity False"] by simp
  have d: "is_double (double_of_int (- 1))" "is_double (double_of_int 4)"
    "is_double (double_of_int 2)"
    by (simp_all add: is_double_of_int)
  have c: "flt (double_of_int (- 1)) (double_of_int 0)"
    "fle (double_of_int 0) (double_of_int 4)" "fle (double_of_int 0) (double_of_int 2)"
    by (simp_all add: double_of_int_def fle_def with_sign_def)
  have e: "double_of_int 2 = Finite False 2" by (simp add: double_of_int_def)
  have "raizCuadrada (double_of_int (- 1)) = Inl NegativeNumberException"
    using raizCuadrada_spec [OF d(1)] c(1) by blast
  moreover have "\<exists>r. raizCuadrada (double_of_int 4) = Inr r \<and> fle (double_of_int 0) r"
    using raizCuadrada_spec [OF d(2)] c(2) by blast
  moreover have "\<exists>t r. raizCuadrada (double_of_int 2) = Inr (Finite t r)
      \<and> fle (double_of_int 0) (Finite t r) \<and> 0 \<le> r \<and> \<bar>r\<^sup>2 - 2\<bar> \<le> 2 / 2 ^ 51"
    using raizCuadrada_spec [OF d(3)] c(3) e by blast
  ultimately show ?thesis using inf by blast
qed

lemma dividir_one_third:
  "dividir (double_of_int 1) (double_of_int 3) = Inr (Finite False (6004799503160661 / 2 ^ 54))"
proof -
  have "round_mag (1 / 3) = 6004799503160661 / 2 ^ 54"
    by (simp add: round_mag_def ulp_def expo_eqI [of "- 2" "1 / 3"] rne_def Let_def)
  then show ?thesis
    by (simp add: dividir_def double_of_int_def with_sign_def round_double_def)
qed

lemma raizCuadrada_four: "raizCuadrada (double_of_int 4) = Inr (double_of_int 2)"
proof -
  have "representable (real 2)" by (rule representable_of_nat) simp
  then have "round_double False 2 = Finite False 2" by (simp add: round_double_exact)
  then show ?thesis by (simp add: raizCuadrada_def double_of_int_def with_sign_def)
qed

subsection \<open>The operations stay within the doubles\<close>

lemma rne_ge: "of_int k \<le> y \<Longrightarrow> k \<le> rne y"
proof -
  assume "of_int k \<le> y"
  then have "k \<le> \<lfloor>y\<rfloor>" by (simp add: le_floor_iff)
  then show ?thesis by (auto simp: rne_def Let_def)
qed

lemma ulp_same_binade:
  assumes "expo r = expo x"
  shows "ulp r = ulp x"
  by (simp add: ulp_def assms)

lemma round_mag_representable_result:
  assumes "0 \<le> x" "round_mag x < 2 ^ 1024"
  shows "representable (round_mag x)"
proof (cases "round_mag x = 0")
  case True
  then show ?thesis by simp
next
  case False
  then have x0: "x \<noteq> 0" by (auto simp: round_mag_def)
  with assms(1) have x: "0 < x" by simp
  define e where "e = expo x"
  define u where "u = ulp x"
  define n where "n = rne (x / u)"
  have u: "0 < u" unfolding u_def by (rule ulp_pos)
  have r: "round_mag x = of_int n * u" using x0 by (simp add: round_mag_def n_def u_def)
  have ue: "u = 2 powi (e - 52)" by (simp add: u_def ulp_def e_def)
  have p53: "2 ^ 53 * u = 2 powi (e + 1)" unfolding u_def e_def by (rule pow2_expo_succ [symmetric])
  have p52: "2 ^ 52 * u = 2 powi e"
  proof -
    have "(2::real) powi (52 + (e - 52)) = 2 powi 52 * 2 powi (e - 52)" by (rule pow2_add)
    then show ?thesis by (simp add: ue)
  qed
  have y0: "0 \<le> x / u" using x u by simp
  then have n0: "0 \<le> n" unfolding n_def by (rule rne_nonneg)
  have "x < 2 ^ 53 * u" unfolding p53 e_def by (rule expo_upper [OF x])
  then have "x / u \<le> 2 ^ 53" using u by (simp add: pos_divide_le_eq)
  then have "x / u \<le> of_int (2 ^ 53)" by simp
  then have n53: "n \<le> 2 ^ 53" unfolding n_def by (rule rne_le)
  from False r n0 have npos: "0 < n" by (cases "n = 0") auto
  then have rpos: "0 < round_mag x" using u by (simp add: r)
  have er: "- 1022 \<le> e" unfolding e_def by (rule expo_ge)
  show ?thesis
  proof (cases "n = 2 ^ 53")
    case True
    then have "round_mag x = 2 ^ 53 * u" by (simp add: r)
    then have rv: "round_mag x = 2 powi (e + 1)" unfolding p53 .
    have "expo (round_mag x) = e + 1"
    proof (rule expo_eqI)
      show "2 powi (e + 1) \<le> round_mag x" by (simp add: rv)
      show "round_mag x < 2 powi (e + 1 + 1)"
        unfolding rv by (rule power_int_strict_increasing) simp_all
      show "- 1022 \<le> e + 1" using er by simp
    qed
    then have "ulp (round_mag x) = 2 powi (e + 1 - 52)" by (simp add: ulp_def)
    moreover have "(2::real) powi (e + 1) = 2 ^ 52 * 2 powi (e + 1 - 52)"
    proof -
      have "e + 1 = 52 + (e + 1 - 52)" by simp
      then have "(2::real) powi (e + 1) = 2 powi (52 + (e + 1 - 52))" by (rule arg_cong)
      also have "\<dots> = 2 powi 52 * 2 powi (e + 1 - 52)" by (rule pow2_add)
      finally show ?thesis by simp
    qed
    ultimately have "round_mag x = 2 ^ 52 * ulp (round_mag x)" by (simp only: rv)
    then have "round_mag x / ulp (round_mag x) = of_int (2 ^ 52)"
      using ulp_pos [of "round_mag x"] by (simp add: field_simps)
    then have "of_int \<lfloor>round_mag x / ulp (round_mag x)\<rfloor> = round_mag x / ulp (round_mag x)"
      by (simp only: floor_of_int)
    with rpos assms(2) show ?thesis by (simp only: representable_def) simp
  next
    case False
    with n53 have "n \<le> 2 ^ 53 - 1" by simp
    then have "real_of_int n \<le> real_of_int (2 ^ 53 - 1)" by (simp only: of_int_le_iff)
    then have "of_int n * u \<le> (2 ^ 53 - 1) * u" using u by (intro mult_right_mono) simp_all
    also have "\<dots> < 2 ^ 53 * u" using u by (simp add: algebra_simps)
    finally have "of_int n * u < 2 ^ 53 * u" .
    then have hi: "round_mag x < 2 powi (e + 1)" unfolding p53 r .
    have "expo (round_mag x) = e"
    proof (cases "2 powi e \<le> round_mag x")
      case True
      then show ?thesis using hi er by (rule expo_eqI)
    next
      case lt: False
      have "e = - 1022"
      proof (rule ccontr)
        assume "e \<noteq> - 1022"
        with er have "- 1022 < e" by simp
        then have "e = \<lfloor>log 2 x\<rfloor>" by (simp add: e_def expo_def max_def split: if_splits)
        then have "2 powi e \<le> x" using floor_log2_bounds(1) [OF x] by simp
        then have "2 ^ 52 * u \<le> x" unfolding p52 .
        then have "2 ^ 52 \<le> x / u" using u by (simp add: pos_le_divide_eq)
        then have "of_int (2 ^ 52) \<le> x / u" by simp
        then have "2 ^ 52 \<le> n" unfolding n_def by (rule rne_ge)
        then have "real_of_int (2 ^ 52) \<le> real_of_int n" by (simp only: of_int_le_iff)
        then have "2 ^ 52 * u \<le> of_int n * u" using u by (intro mult_right_mono) simp_all
        then have "2 powi e \<le> round_mag x" unfolding p52 r .
        with lt show False by simp
      qed
      with lt have "round_mag x < 2 powi (- 1022)" by simp
      with rpos have "expo (round_mag x) = - 1022" by (rule expo_subnormal)
      with \<open>e = - 1022\<close> show ?thesis by simp
    qed
    then have "ulp (round_mag x) = u" by (simp add: ulp_def ue)
    then have "round_mag x / ulp (round_mag x) = of_int n" using u by (simp add: r)
    then have "of_int \<lfloor>round_mag x / ulp (round_mag x)\<rfloor> = round_mag x / ulp (round_mag x)"
      by (simp only: floor_of_int)
    with rpos assms(2) show ?thesis by (simp only: representable_def) simp
  qed
qed

lemma is_double_round_double: "0 \<le> x \<Longrightarrow> is_double (round_double s x)"
  by (simp add: round_double_def round_mag_representable_result)

lemma is_double_fdiv:
  assumes "is_double a" "is_double b"
  shows "is_double (fdiv a b)"
proof (cases a; cases b)
  fix s u t v
  assume "a = Finite s u" "b = Finite t v"
  moreover from this assms have "0 \<le> u" "0 \<le> v" using is_double_nonneg by blast+
  ultimately show ?thesis by (simp add: is_double_round_double)
qed simp_all

lemma is_double_fsqrt:
  assumes "is_double x"
  shows "is_double (fsqrt x)"
proof (cases x)
  case (Finite s v)
  with assms have "0 \<le> sqrt v" using is_double_nonneg [of s v] by simp
  with Finite show ?thesis by (simp add: is_double_round_double)
qed simp_all

subsection \<open>Some values, as the hardware gives them\<close>

text \<open>
  The quotient 1/3 and the root of 2 are the doubles nearest to them; half the smallest
  positive double is a tie and rounds to zero; \<open>2^1023 / 0.5\<close> overflows to infinity.
\<close>

lemma rne_half: "rne (1 / 2) = 0"
  by (simp add: rne_def)

lemma round_mag_half_ulp:
  assumes "0 < u" "ulp (u / 2) = u"
  shows "round_mag (u / 2) = 0"
proof -
  have "u / 2 / ulp (u / 2) = 1 / 2" unfolding assms(2) using assms(1) by simp
  then have "rne (u / 2 / ulp (u / 2)) = 0" by (simp only: rne_half)
  then show ?thesis by (simp add: round_mag_def)
qed

lemma dividir_underflow:
  "dividir (Finite False (2 powi (- 1074))) (double_of_int 2) = Inr (Finite False 0)"
proof -
  define u :: real where "u = 2 powi (- 1074)"
  have p: "0 < u" unfolding u_def by (rule zero_less_power_int) simp
  have "u \<le> 2 powi (- 1022)" unfolding u_def by (rule pow2_mono) simp
  with p have "0 < u / 2" "u / 2 < 2 powi (- 1022)" by linarith+
  then have e: "expo (u / 2) = - 1022" by (rule expo_subnormal)
  have "ulp (u / 2) = 2 powi (- 1074)" by (simp add: ulp_def e)
  then have "ulp (u / 2) = u" by (simp only: u_def)
  with p have "round_mag (u / 2) = 0" by (rule round_mag_half_ulp)
  then have r: "round_double False (u / 2) = Finite False 0" by (simp add: round_double_def)
  have "dividir (Finite False u) (double_of_int 2) = Inr (Finite False 0)"
    using p r by (simp add: dividir_def double_of_int_def with_sign_def)
  then show ?thesis unfolding u_def .
qed

lemma dividir_overflow:
  "dividir (Finite False (2 powi 1023)) (Finite False (1 / 2)) = Inr (Infinity False)"
proof -
  define u :: real where "u = 2 powi 1023"
  have p: "0 < u" unfolding u_def by (rule zero_less_power_int) simp
  have u2: "u / (1 / 2) = 2 powi 1024"
  proof -
    have "(2::real) powi (1 + 1023) = 2 powi 1 * 2 powi 1023" by (rule pow2_add)
    then show ?thesis unfolding u_def by simp
  qed
  have lo: "(2::real) powi (- 1022) \<le> 2 powi 1024" by (rule pow2_mono) simp
  have e: "expo (2 powi 1024) = 1024"
  proof (rule expo_eqI)
    show "(2::real) powi 1024 \<le> 2 powi 1024" by (rule order_refl)
    show "(2::real) powi 1024 < 2 powi (1024 + 1)"
      by (rule power_int_strict_increasing) simp_all
    show "- 1022 \<le> (1024::int)" by simp
  qed
  have "ulp (2 powi 1024) = 2 powi 972" unfolding ulp_def e by simp
  moreover have "(2::real) powi 1024 = 2 ^ 52 * 2 powi 972"
  proof -
    have "(2::real) powi (52 + 972) = 2 powi 52 * 2 powi 972" by (rule pow2_add)
    then show ?thesis by simp
  qed
  ultimately have "2 powi 1024 / ulp (2 powi 1024) = of_int (2 ^ 52)" by simp
  then have "rne (2 powi 1024 / ulp (2 powi 1024)) = 2 ^ 52" by (simp only: rne_of_int)
  then have "round_mag (2 powi 1024) = 2 ^ 52 * ulp (2 powi 1024)"
    by (simp add: round_mag_def)
  then have "round_mag (2 powi 1024) = 2 ^ 1024"
    unfolding \<open>ulp (2 powi 1024) = 2 powi 972\<close> \<open>(2::real) powi 1024 = 2 ^ 52 * 2 powi 972\<close> [symmetric]
    by simp
  then have "round_double False (u / (1 / 2)) = Infinity False"
    unfolding u2 by (simp add: round_double_def)
  then have "dividir (Finite False u) (Finite False (1 / 2)) = Inr (Infinity False)"
    using p by (simp add: dividir_def with_sign_def)
  then show ?thesis unfolding u_def .
qed

lemma raizCuadrada_two:
  "raizCuadrada (double_of_int 2) = Inr (Finite False (6369051672525773 / 2 ^ 52))"
proof -
  have e: "expo (sqrt 2) = 0"
  proof (rule expo_eqI)
    show "2 powi 0 \<le> sqrt 2" by simp
    have "sqrt 2 < 2" by (rule real_less_lsqrt) simp_all
    then show "sqrt 2 < 2 powi (0 + 1)" by simp
    show "- 1022 \<le> (0::int)" by simp
  qed
  have u: "ulp (sqrt 2) = 1 / 2 ^ 52" by (simp add: ulp_def e)
  let ?y = "sqrt 2 * 2 ^ 52"
  have y: "sqrt 2 / ulp (sqrt 2) = ?y" by (simp add: u)
  have y2: "?y * ?y = 2 * 2 ^ 104" by (simp add: algebra_simps)
  have y0: "0 \<le> ?y" by simp
  have lo: "6369051672525772 + 1 / 2 < ?y"
  proof (rule ccontr)
    assume "\<not> 6369051672525772 + 1 / 2 < ?y"
    then have "?y \<le> 6369051672525772 + 1 / 2" by simp
    then have "?y * ?y \<le> (6369051672525772 + 1 / 2) * (6369051672525772 + 1 / 2)"
      using y0 by (intro mult_mono) simp_all
    then show False unfolding y2 by simp
  qed
  have hi: "?y < 6369051672525773"
  proof (rule ccontr)
    assume "\<not> ?y < 6369051672525773"
    then have "6369051672525773 \<le> ?y" by simp
    then have "6369051672525773 * 6369051672525773 \<le> ?y * ?y"
      by (intro mult_mono) simp_all
    then show False unfolding y2 by simp
  qed
  have "\<lfloor>?y\<rfloor> = 6369051672525772" using lo hi by linarith
  then have "rne ?y = 6369051672525773" using lo by (simp add: rne_def Let_def)
  then have "round_mag (sqrt 2) = 6369051672525773 / 2 ^ 52"
    by (simp add: round_mag_def y u)
  then have "round_double False (sqrt 2) = Finite False (6369051672525773 / 2 ^ 52)"
    by (rule round_double_finite) simp
  then show ?thesis by (simp add: raizCuadrada_def double_of_int_def with_sign_def)
qed

section \<open>Logger, monitor and batch runner: properties\<close>

subsection \<open>32-bit signed arithmetic\<close>

lemma sint_add_nat:
  fixes x :: int32
  assumes "sint x + int n \<le> 2147483647"
  shows "sint (x + of_nat n) = sint x + int n"
proof -
  have lo: "- (2 ^ 31) \<le> sint x" using sint_ge [of x] by simp
  have "sint (x + of_nat n) = signed_take_bit 31 (sint x + sint (of_nat n :: int32))"
    by (simp add: sint_word_ariths)
  also have "\<dots> = signed_take_bit 31 (sint x + signed_take_bit 31 (int n))"
    by (simp add: signed_of_nat)
  also have "\<dots> = signed_take_bit 31
      (signed_take_bit 31 (sint x) + signed_take_bit 31 (signed_take_bit 31 (int n)))"
    by (simp only: signed_take_bit_add)
  also have "\<dots> = signed_take_bit 31 (signed_take_bit 31 (sint x) + signed_take_bit 31 (int n))"
    by simp
  also have "\<dots> = signed_take_bit 31 (sint x + int n)"
    by (simp only: signed_take_bit_add)
  also have "\<dots> = sint x + int n"
    using lo assms by (intro signed_take_bit_int_eq_self) simp_all
  finally show ?thesis .
qed

lemma sint_succ:
  fixes x :: int32
  assumes "sint x < 2147483647"
  shows "sint (x + 1) = sint x + 1"
  using sint_add_nat [of x 1] assms by simp

lemma sint_of_nat_small:
  assumes "n < 2 ^ 31"
  shows "sint (of_nat n :: int32) = int n"
  using sint_add_nat [of 0 n] assms by simp

subsection \<open>Logger, monitor and batch runner\<close>

lemma logfile_print [simp]: "logfile (print os text w) = logfile w"
  by (simp add: print_def)

lemma logfile_log' [simp]: "logfile (log' level message w) = logfile w @ [(level, message)]"
  by (simp add: log'_def)

lemma logfile_logException [simp]:
  "logfile (logException ex w) = logfile w @ [(ERROR, ''Excepci'' @ o_acute @ ''n capturada: '' @ what ex)]"
  by (simp add: logException_def)

lemma snd_iteracion: "snd (iteracion L i a b s) = perform (llamada (a, b)) (snd s)"
  by (simp add: iteracion_def llamada_def exitosa_def Let_def split: sum.split exc.split)

lemma logfile_iteracion:
  "logfile (fst (iteracion L i a b s)) = logfile (fst s) @ entradas L (a, b)"
  by (simp add: iteracion_def entradas_def Let_def split: sum.split exc.split)

lemma procesar_desde_step:
  "i < length pares \<Longrightarrow>
   procesar_desde L pares i s =
     procesar_desde L pares (Suc i) (iteracion L i (fst (pares ! i)) (snd (pares ! i)) s)"
  by (subst procesar_desde.simps) simp

lemma procesar_desde_done: "\<not> i < length pares \<Longrightarrow> procesar_desde L pares i s = s"
  by (subst procesar_desde.simps) simp

lemma snd_procesar_desde:
  "snd (procesar_desde L pares i s) = after_calls (map llamada (drop i pares)) (snd s)"
proof (induction L pares i s rule: procesar_desde.induct)
  case (1 L pares i s)
  show ?case
  proof (cases "i < length pares")
    case True
    then have d: "drop i pares = pares ! i # drop (Suc i) pares"
      by (simp add: Cons_nth_drop_Suc)
    from True 1 show ?thesis
      by (simp add: procesar_desde_step d snd_iteracion after_calls_def)
  next
    case False
    then show ?thesis by (simp add: procesar_desde_done after_calls_def)
  qed
qed

lemma logfile_procesar_desde:
  "logfile (fst (procesar_desde L pares i s))
     = logfile (fst s) @ concat (map (entradas L) (drop i pares))"
proof (induction L pares i s rule: procesar_desde.induct)
  case (1 L pares i s)
  show ?case
  proof (cases "i < length pares")
    case True
    then have d: "drop i pares = pares ! i # drop (Suc i) pares"
      by (simp add: Cons_nth_drop_Suc)
    from True 1 show ?thesis
      by (simp add: procesar_desde_step d logfile_iteracion)
  next
    case False
    then show ?thesis by (simp add: procesar_desde_done)
  qed
qed


lemma after_calls_Cons: "after_calls (c # cs) m = after_calls cs (perform c m)"
  by (simp add: after_calls_def)

lemma after_calls_counts:
  "after_calls cs m =
     m\<lparr>totalOperations := totalOperations m + of_nat (length cs),
       successfulOperations :=
         successfulOperations m + of_nat (length (filter (\<lambda>c. c = call_recordSuccess) cs)),
       failedOperations :=
         failedOperations m + of_nat (length (filter (\<lambda>c. c = call_recordFailure) cs))\<rparr>"
proof (induction cs arbitrary: m)
  case Nil
  show ?case by (simp add: after_calls_def)
next
  case (Cons c cs)
  show ?case
    unfolding after_calls_Cons Cons.IH
    by (cases c) (simp_all add: recordSuccess_def recordFailure_def)
qed

lemma snd_procesarListaNumeros:
  "snd (procesarListaNumeros L pares s) = after_calls (map llamada pares) (snd s)"
  by (simp add: procesarListaNumeros_def Let_def snd_procesar_desde)

lemma logfile_procesarListaNumeros:
  "logfile (fst (procesarListaNumeros L pares s))
     = logfile (fst s)
       @ [(INFO, ''Iniciando procesamiento de lista de n'' @ u_acute @ ''meros'')]
       @ concat (map (entradas L) pares)
       @ [(INFO, ''Procesamiento de lista completado'')]"
  by (simp add: procesarListaNumeros_def Let_def logfile_procesar_desde)

lemma filter_llamada_success:
  "length (filter ((\<lambda>c. c = call_recordSuccess) \<circ> llamada) pares) = length (filter exitosa pares)"
  by (induction pares) (simp_all add: llamada_def)

lemma filter_llamada_failure:
  "length (filter ((\<lambda>c. c = call_recordFailure) \<circ> llamada) pares)
     = length (filter (\<lambda>p. \<not> exitosa p) pares)"
  by (induction pares) (simp_all add: llamada_def)

lemma invariant_perform:
  "totalOperations m = successfulOperations m + failedOperations m \<Longrightarrow>
   totalOperations (perform c m)
     = successfulOperations (perform c m) + failedOperations (perform c m)"
  by (cases c) (simp_all add: recordSuccess_def recordFailure_def)

lemma invariant_after_calls:
  "totalOperations m = successfulOperations m + failedOperations m \<Longrightarrow>
   totalOperations (after_calls cs m)
     = successfulOperations (after_calls cs m) + failedOperations (after_calls cs m)"
proof (induction cs arbitrary: m)
  case Nil
  then show ?case by (simp add: after_calls_def)
next
  case (Cons c cs)
  have "after_calls (c # cs) m = after_calls cs (perform c m)"
    by (simp add: after_calls_def)
  with Cons.IH [OF invariant_perform [OF Cons.prems]] show ?case by simp
qed


lemma length_calls_split:
  "length cs = length (filter (\<lambda>c. c = call_recordSuccess) cs)
             + length (filter (\<lambda>c. c = call_recordFailure) cs)"
proof (induction cs)
  case Nil
  show ?case by simp
next
  case (Cons c cs)
  then show ?case by (cases c) simp_all
qed

lemma counters_below_2_31:
  assumes "length cs < 2 ^ 31"
  shows "sint (totalOperations (after_calls cs SystemMonitor_ctor)) = int (length cs)"
    and "sint (successfulOperations (after_calls cs SystemMonitor_ctor))
           = int (length (filter (\<lambda>c. c = call_recordSuccess) cs))"
    and "sint (failedOperations (after_calls cs SystemMonitor_ctor))
           = int (length (filter (\<lambda>c. c = call_recordFailure) cs))"
proof -
  have a: "length (filter (\<lambda>c. c = call_recordSuccess) cs) < 2 ^ 31"
    using assms le_less_trans [OF length_filter_le] by blast
  have b: "length (filter (\<lambda>c. c = call_recordFailure) cs) < 2 ^ 31"
    using assms le_less_trans [OF length_filter_le] by blast
  show "sint (totalOperations (after_calls cs SystemMonitor_ctor)) = int (length cs)"
    by (simp add: after_calls_counts [of cs] SystemMonitor_ctor_def sint_of_nat_small [OF assms])
  show "sint (successfulOperations (after_calls cs SystemMonitor_ctor))
           = int (length (filter (\<lambda>c. c = call_recordSuccess) cs))"
    by (simp add: after_calls_counts [of cs] SystemMonitor_ctor_def sint_of_nat_small [OF a])
  show "sint (failedOperations (after_calls cs SystemMonitor_ctor))
           = int (length (filter (\<lambda>c. c = call_recordFailure) cs))"
    by (simp add: after_calls_counts [of cs] SystemMonitor_ctor_def sint_of_nat_small [OF b])
qed

text \<open>
  C6. From the initial tally, after any finite sequence of calls of \<open>recordSuccess\<close>
  and \<open>recordFailure\<close>, the total is the sum of the successes and the failures, in the
  32-bit arithmetic of the counters. While fewer than \<open>2^31\<close> calls have been made no
  counter has wrapped: each counter is the number of its calls, and the equation holds
  of the numbers too.
\<close>

theorem tally_invariant:
  "totalOperations (after_calls cs SystemMonitor_ctor)
     = successfulOperations (after_calls cs SystemMonitor_ctor)
       + failedOperations (after_calls cs SystemMonitor_ctor)
   \<and> (length cs < 2 ^ 31 \<longrightarrow>
        sint (totalOperations (after_calls cs SystemMonitor_ctor)) = int (length cs)
      \<and> 0 \<le> sint (successfulOperations (after_calls cs SystemMonitor_ctor))
      \<and> 0 \<le> sint (failedOperations (after_calls cs SystemMonitor_ctor))
      \<and> sint (totalOperations (after_calls cs SystemMonitor_ctor))
          = sint (successfulOperations (after_calls cs SystemMonitor_ctor))
            + sint (failedOperations (after_calls cs SystemMonitor_ctor)))"
proof (intro conjI impI)
  show "totalOperations (after_calls cs SystemMonitor_ctor)
     = successfulOperations (after_calls cs SystemMonitor_ctor)
       + failedOperations (after_calls cs SystemMonitor_ctor)"
    by (rule invariant_after_calls) (simp add: SystemMonitor_ctor_def)
next
  assume l: "length cs < 2 ^ 31"
  note c = counters_below_2_31 [OF l]
  show "sint (totalOperations (after_calls cs SystemMonitor_ctor)) = int (length cs)"
    by (rule c(1))
  show "0 \<le> sint (successfulOperations (after_calls cs SystemMonitor_ctor))"
    unfolding c(2) by simp
  show "0 \<le> sint (failedOperations (after_calls cs SystemMonitor_ctor))"
    unfolding c(3) by simp
  show "sint (totalOperations (after_calls cs SystemMonitor_ctor))
          = sint (successfulOperations (after_calls cs SystemMonitor_ctor))
            + sint (failedOperations (after_calls cs SystemMonitor_ctor))"
    unfolding c using length_calls_split [of cs] by simp
qed

theorem tally_invariant_witness:
  "totalOperations (after_calls [call_recordSuccess, call_recordFailure, call_recordSuccess]
           SystemMonitor_ctor)
      = successfulOperations (after_calls [call_recordSuccess, call_recordFailure, call_recordSuccess]
           SystemMonitor_ctor)
        + failedOperations (after_calls [call_recordSuccess, call_recordFailure, call_recordSuccess]
           SystemMonitor_ctor)
   \<and> sint (totalOperations (after_calls [call_recordSuccess, call_recordFailure, call_recordSuccess]
           SystemMonitor_ctor))
      = int (length [call_recordSuccess, call_recordFailure, call_recordSuccess])"
proof -
  have "length [call_recordSuccess, call_recordFailure, call_recordSuccess] < 2 ^ 31"
    by simp
  with tally_invariant [of "[call_recordSuccess, call_recordFailure, call_recordSuccess]"]
  show ?thesis by blast
qed

text \<open>
  C10, as the code has it. \<open>recordSuccess\<close> adds one to the total and to the successes,
  in 32-bit arithmetic, and leaves the failures as they are; \<open>recordFailure\<close> adds one
  to the total and to the failures and leaves the successes as they are. A counter
  below \<open>INT_MAX = 2147483647\<close> is larger by exactly one after its increment, so it
  does not decrease.
\<close>

theorem record_frame:
  "totalOperations (recordSuccess m) = totalOperations m + 1
   \<and> successfulOperations (recordSuccess m) = successfulOperations m + 1
   \<and> failedOperations (recordSuccess m) = failedOperations m
   \<and> totalOperations (recordFailure m) = totalOperations m + 1
   \<and> failedOperations (recordFailure m) = failedOperations m + 1
   \<and> successfulOperations (recordFailure m) = successfulOperations m
   \<and> (sint (totalOperations m) < 2147483647 \<longrightarrow>
        sint (totalOperations (recordSuccess m)) = sint (totalOperations m) + 1
      \<and> sint (totalOperations (recordFailure m)) = sint (totalOperations m) + 1)
   \<and> (sint (successfulOperations m) < 2147483647 \<longrightarrow>
        sint (successfulOperations (recordSuccess m)) = sint (successfulOperations m) + 1)
   \<and> (sint (failedOperations m) < 2147483647 \<longrightarrow>
        sint (failedOperations (recordFailure m)) = sint (failedOperations m) + 1)"
  by (simp add: recordSuccess_def recordFailure_def sint_succ)

theorem record_frame_witness:
  "sint (totalOperations (recordSuccess SystemMonitor_ctor)) = 1
   \<and> sint (successfulOperations (recordSuccess SystemMonitor_ctor)) = 1
   \<and> sint (failedOperations (recordSuccess SystemMonitor_ctor)) = 0
   \<and> sint (totalOperations (recordFailure SystemMonitor_ctor)) = 1
   \<and> sint (failedOperations (recordFailure SystemMonitor_ctor)) = 1"
  using record_frame [of SystemMonitor_ctor]
  by (simp add: SystemMonitor_ctor_def)

text \<open>
  C10 as the spec states it fails on a monitor whose total is \<open>INT_MAX\<close>, the state
  after 2147483647 successes: the next \<open>recordSuccess\<close> or \<open>recordFailure\<close> takes the
  total to \<open>INT_MIN\<close>, so the counter decreases.
\<close>

theorem record_wraps_at_INT_MAX:
  "sint (totalOperations monitor_at_INT_MAX) = 2147483647
   \<and> sint (totalOperations (recordSuccess monitor_at_INT_MAX)) = - 2147483648
   \<and> sint (successfulOperations (recordSuccess monitor_at_INT_MAX)) = - 2147483648
   \<and> sint (totalOperations (recordFailure monitor_at_INT_MAX)) = - 2147483648"
  by (simp add: monitor_at_INT_MAX_def recordSuccess_def recordFailure_def)


subsection \<open>Divisions of the demonstration\<close>

lemma dividir_ints:
  assumes "m = n * k" "0 < k" "0 \<le> n" "n < 2 ^ 53"
  shows "dividir (double_of_int m) (double_of_int k) = Inr (double_of_int n)"
proof -
  have m: "0 \<le> m" using assms(1,2,3) by simp
  have "fdiv (double_of_int m) (double_of_int k) = double_of_int n"
    using assms m by (intro fdiv_ints) simp_all
  moreover have "\<not> feq (double_of_int k) (double_of_int 0)"
    "\<not> flt (double_of_int m) (double_of_int 0)" "\<not> flt (double_of_int k) (double_of_int 0)"
    using assms(2) m by (simp_all add: double_of_int_def with_sign_def)
  ultimately show ?thesis by (simp only: dividir_def if_False simp_thms)
qed

lemma dividir_by_zero: "dividir a (double_of_int 0) = Inl DivisionByZeroException"
  by (cases a) (simp_all add: dividir_def with_sign_def)

lemma dividir_negative_ints:
  assumes "k \<noteq> 0" "m < 0 \<or> k < 0"
  shows "dividir (double_of_int m) (double_of_int k) = Inl NegativeNumberException"
  using assms by (auto simp: dividir_def double_of_int_def with_sign_def)

lemma divisiones_listaOperaciones:
  "map (\<lambda>(a, b). dividir a b) listaOperaciones
     = [Inr (double_of_int 20), Inl DivisionByZeroException, Inr (double_of_int 9),
        Inl NegativeNumberException, Inr (double_of_int 20), Inl DivisionByZeroException,
        Inr (double_of_int 12), Inl NegativeNumberException]"
  by (simp add: listaOperaciones_def dividir_by_zero [of "double_of_int 50", simplified]
        dividir_by_zero dividir_negative_ints
        dividir_ints [of 100 20 5] dividir_ints [of 81 9 9] dividir_ints [of 200 20 10]
        dividir_ints [of 144 12 12] del: zero_double)

lemma llamadas_listaOperaciones:
  "map llamada listaOperaciones
     = [call_recordSuccess, call_recordFailure, call_recordSuccess, call_recordFailure,
        call_recordSuccess, call_recordFailure, call_recordSuccess, call_recordFailure]"
  by (simp add: listaOperaciones_def llamada_def exitosa_def dividir_by_zero dividir_negative_ints
        dividir_ints [of 100 20 5] dividir_ints [of 81 9 9] dividir_ints [of 200 20 10]
        dividir_ints [of 144 12 12] del: zero_double)

text \<open>
  C1. The batch runner on the fixed list of \<open>main\<close>, from the tally \<open>{0,0,0}\<close>, ends
  with total 8, 4 successes and 4 failures: the pairs (100,5), (81,9), (200,10) and
  (144,12) divide, to 20, 9, 20 and 12, the two pairs with divisor 0 raise
  \<open>DivisionByZeroException\<close> and the two pairs with a negative operand raise
  \<open>NegativeNumberException\<close>.
\<close>

theorem batch_scenario_D:
  "snd (procesarListaNumeros L listaOperaciones (w, SystemMonitor_ctor))
     = \<lparr>totalOperations = 8, successfulOperations = 4, failedOperations = 4\<rparr>
   \<and> map (\<lambda>(a, b). dividir a b) listaOperaciones
     = [Inr (double_of_int 20), Inl DivisionByZeroException, Inr (double_of_int 9),
        Inl NegativeNumberException, Inr (double_of_int 20), Inl DivisionByZeroException,
        Inr (double_of_int 12), Inl NegativeNumberException]"
proof
  show "snd (procesarListaNumeros L listaOperaciones (w, SystemMonitor_ctor))
     = \<lparr>totalOperations = 8, successfulOperations = 4, failedOperations = 4\<rparr>"
    by (simp add: snd_procesarListaNumeros llamadas_listaOperaciones after_calls_counts
          SystemMonitor_ctor_def)
  show "map (\<lambda>(a, b). dividir a b) listaOperaciones
     = [Inr (double_of_int 20), Inl DivisionByZeroException, Inr (double_of_int 9),
        Inl NegativeNumberException, Inr (double_of_int 20), Inl DivisionByZeroException,
        Inr (double_of_int 12), Inl NegativeNumberException]"
    by (rule divisiones_listaOperaciones)
qed

text \<open>
  C8, as the code has it. For every list of pairs the batch runner handles each pair,
  in the order of the list, and records one outcome for each: the log receives, between
  the opening and the closing entry, the announcement and the outcome of each pair in
  list order, and the monitor receives one call per pair in list order, whatever the
  outcomes are. The total grows by the length of the list in 32-bit arithmetic, and by
  exactly the length when that does not take it beyond \<open>INT_MAX = 2147483647\<close>.
\<close>

theorem batch_every_pair:
  "logfile (fst (procesarListaNumeros L pares s))
     = logfile (fst s)
       @ [(INFO, ''Iniciando procesamiento de lista de n'' @ u_acute @ ''meros'')]
       @ concat (map (entradas L) pares)
       @ [(INFO, ''Procesamiento de lista completado'')]
   \<and> snd (procesarListaNumeros L pares s) = after_calls (map llamada pares) (snd s)
   \<and> totalOperations (snd (procesarListaNumeros L pares s))
       = totalOperations (snd s) + of_nat (length pares)
   \<and> successfulOperations (snd (procesarListaNumeros L pares s))
       = successfulOperations (snd s) + of_nat (length (filter exitosa pares))
   \<and> failedOperations (snd (procesarListaNumeros L pares s))
       = failedOperations (snd s) + of_nat (length (filter (\<lambda>p. \<not> exitosa p) pares))
   \<and> (sint (totalOperations (snd s)) + int (length pares) \<le> 2147483647 \<longrightarrow>
        sint (totalOperations (snd (procesarListaNumeros L pares s)))
          = sint (totalOperations (snd s)) + int (length pares))"
  by (simp add: logfile_procesarListaNumeros snd_procesarListaNumeros
        after_calls_counts [of "map llamada pares"] filter_llamada_success filter_llamada_failure
        sint_add_nat)

theorem batch_every_pair_witness:
  "sint (totalOperations (snd (procesarListaNumeros stdlib_blank listaOperaciones
           (world_start, SystemMonitor_ctor))))
     = sint (totalOperations SystemMonitor_ctor) + int (length listaOperaciones)
   \<and> snd (procesarListaNumeros stdlib_blank listaOperaciones (world_start, SystemMonitor_ctor))
     = after_calls (map llamada listaOperaciones) SystemMonitor_ctor"
proof -
  note t = batch_every_pair [of stdlib_blank listaOperaciones "(world_start, SystemMonitor_ctor)",
      unfolded snd_conv]
  have "sint (totalOperations SystemMonitor_ctor) + int (length listaOperaciones) \<le> 2147483647"
    by (simp add: SystemMonitor_ctor_def listaOperaciones_def)
  with t show ?thesis by blast
qed

text \<open>
  C8 as the spec states it fails on the same monitor: a batch of one pair takes the
  total from \<open>INT_MAX\<close> to \<open>INT_MIN\<close>, not to \<open>INT_MAX + 1\<close>.
\<close>

theorem batch_total_wraps:
  "sint (totalOperations (snd (procesarListaNumeros stdlib_blank
           [(double_of_int 1, double_of_int 1)] (world_start, monitor_at_INT_MAX))))
     = - 2147483648
   \<and> sint (totalOperations monitor_at_INT_MAX)
       + int (length [(double_of_int 1, double_of_int 1)]) = 2147483648"
  by (simp add: snd_procesarListaNumeros after_calls_counts monitor_at_INT_MAX_def)


subsection \<open>Metrics\<close>

lemma console_print [simp]: "console (print os text w) = console w @ [(os, text)]"
  by (simp add: print_def)

lemma console_log' [simp]: "console (log' level message w) = console w"
  by (simp add: log'_def)

lemma logfile_logMetrics:
  "logfile (logMetrics L totalOps successOps failedOps w)
     = logfile w @
       [(INFO, ''M'' @ e_acute @ ''tricas - Total: '' @ put_int (sint totalOps)
          @ '' | Exitosas: '' @ put_int (sint successOps)
          @ '' | Fallidas: '' @ put_int (sint failedOps)
          @ '' | Tasa de '' @ e_acute @ ''xito: ''
          @ put_double L default_flags
              (if 0 < sint totalOps
               then fdiv (fmul (double_of_int (sint successOps)) (double_of_int 100))
                      (double_of_int (sint totalOps))
               else double_of_int 0)
          @ ''%'')]"
  by (simp add: logMetrics_def)

lemma logfile_showMetrics:
  "logfile (showMetrics L m w)
     = logfile (logMetrics L (totalOperations m) (successfulOperations m) (failedOperations m) w)"
  by (simp add: showMetrics_def Let_def logMetrics_def)

lemma console_showMetrics:
  "console (showMetrics L m w)
     = console w
       @ [(Cout, [CHR 0x0A] @ ''========== M'' @ E_acute @ ''TRICAS DEL SISTEMA =========='' @ endl),
          (Cout, ''Total de operaciones: '' @ put_int (sint (totalOperations m)) @ endl),
          (Cout, ''Operaciones exitosas: '' @ put_int (sint (successfulOperations m)) @ endl),
          (Cout, ''Operaciones fallidas: '' @ put_int (sint (failedOperations m)) @ endl)]
       @ (if 0 < sint (totalOperations m)
          then [(Cout, ''Tasa de '' @ e_acute @ ''xito: ''
                  @ put_double L \<lparr>float_notation = fixed_notation, precision = 2\<rparr>
                      (fdiv (fmul (double_of_int (sint (successfulOperations m))) (double_of_int 100))
                         (double_of_int (sint (totalOperations m))))
                  @ ''%'' @ endl)]
          else [])
       @ [(Cout, ''=========================================='' @ endl)]"
  by (simp add: showMetrics_def Let_def logMetrics_def)

lemma fmul_100:
  assumes "0 \<le> n" "n < 2 ^ 31"
  shows "fmul (double_of_int n) (double_of_int 100) = double_of_int (n * 100)"
proof -
  have "nat (n * 100) < 2 ^ 53" using assms by (simp add: nat_less_iff)
  then have "representable (real (nat (n * 100)))" by (rule representable_of_nat)
  moreover have "real (nat (n * 100)) = real_of_int n * 100" using assms(1) by simp
  ultimately have "round_double False (real_of_int n * 100) = Finite False (real_of_int n * 100)"
    by (simp add: round_double_exact)
  then show ?thesis using assms(1) by (simp add: double_of_int_def)
qed

lemma tasa_1_de_3:
  "fdiv (fmul (double_of_int 1) (double_of_int 100)) (double_of_int 3)
     = Finite False (4691249611844267 / 2 ^ 47)"
proof -
  have "round_mag (100 / 3) = 4691249611844267 / 2 ^ 47"
    by (simp add: round_mag_def ulp_def expo_eqI [of 5 "100 / 3"] rne_def Let_def)
  then have "round_double False (100 / 3) = Finite False (4691249611844267 / 2 ^ 47)"
    by (rule round_double_finite) simp
  then show ?thesis
    using fmul_100 [of 1] by (simp add: double_of_int_def)
qed

lemma tasa_5_de_11:
  "fdiv (fmul (double_of_int 5) (double_of_int 100)) (double_of_int 11)
     = Finite False (6397158561605818 / 2 ^ 47)"
proof -
  have "round_mag (500 / 11) = 6397158561605818 / 2 ^ 47"
    by (simp add: round_mag_def ulp_def expo_eqI [of 5 "500 / 11"] rne_def Let_def)
  then have "round_double False (500 / 11) = Finite False (6397158561605818 / 2 ^ 47)"
    by (rule round_double_finite) simp
  then show ?thesis
    using fmul_100 [of 5] by (simp add: double_of_int_def)
qed

lemma put_int_digits:
  "put_int 1 = ''1''" "put_int 2 = ''2''" "put_int 3 = ''3''"
  "put_int 5 = ''5''" "put_int 6 = ''6''" "put_int 11 = ''11''"
  by (simp_all add: put_int_def put_nat.simps digit_char_def)


subsection \<open>The demonstration\<close>

lemma prueba1_result:
  "\<exists>w'. prueba1 L s = Inr (w', recordFailure (snd s))"
  by (simp add: prueba1_def dividir_by_zero Let_def del: zero_double)

lemma prueba2_result:
  "\<exists>w'. prueba2 L s = Inr (w', recordFailure (snd s))"
  by (simp add: prueba2_def dividir_negative_ints Let_def del: zero_double)

lemma prueba3_result:
  "\<exists>w'. prueba3 L s = Inr (w', recordSuccess (snd s))"
  by (simp add: prueba3_def dividir_ints [of 100 20 5] Let_def del: zero_double)

lemma demostracion_result:
  "\<exists>w'. demostracion L (w, SystemMonitor_ctor)
            = Inr (w', \<lparr>totalOperations = 11, successfulOperations = 5, failedOperations = 6\<rparr>)
         \<and> last (logfile w')
            = (INFO, ''M'' @ e_acute @ ''tricas - Total: 11 | Exitosas: 5 | Fallidas: 6 | Tasa de ''
                 @ e_acute @ ''xito: ''
                 @ put_double L default_flags (Finite False (6397158561605818 / 2 ^ 47)) @ ''%'')
         \<and> (Cout, ''Total de operaciones: 11'' @ endl) \<in> set (console w')
         \<and> (Cout, ''Operaciones exitosas: 5'' @ endl) \<in> set (console w')
         \<and> (Cout, ''Operaciones fallidas: 6'' @ endl) \<in> set (console w')
         \<and> (Cout, ''Tasa de '' @ e_acute @ ''xito: ''
                @ put_double L \<lparr>float_notation = fixed_notation, precision = 2\<rparr>
                    (Finite False (6397158561605818 / 2 ^ 47))
                @ ''%'' @ endl) \<in> set (console w')"
proof -
  let ?w3 = "print Cout (''========================================'' @ endl)
               (print Cout ('' SISTEMA DE MONITOREO Y LOGGING'' @ endl)
                 (print Cout (''========================================'' @ endl) w))"
  let ?m1 = "recordFailure SystemMonitor_ctor"
  let ?m2 = "recordFailure ?m1"
  let ?m3 = "recordSuccess ?m2"
  let ?T = "\<lparr>totalOperations = 11, successfulOperations = 5, failedOperations = 6\<rparr>"
  obtain w1 where p1: "prueba1 L (?w3, SystemMonitor_ctor) = Inr (w1, ?m1)"
    using prueba1_result [of L "(?w3, SystemMonitor_ctor)"] by auto
  obtain w2 where p2: "prueba2 L (w1, ?m1) = Inr (w2, ?m2)"
    using prueba2_result [of L "(w1, ?m1)"] by auto
  obtain w3 where p3: "prueba3 L (w2, ?m2) = Inr (w3, ?m3)"
    using prueba3_result [of L "(w2, ?m2)"] by auto
  let ?s4 = "procesarListaNumeros L listaOperaciones (w3, ?m3)"
  have m4: "snd ?s4 = ?T"
    by (simp add: snd_procesarListaNumeros llamadas_listaOperaciones after_calls_counts
          recordSuccess_def recordFailure_def SystemMonitor_ctor_def)
  let ?w5 = "showMetrics L ?T (fst ?s4)"
  let ?w9 = "print Cout (''========================================'' @ endl)
      (print Cout ('' EJECUCI'' @ O_acute @ ''N COMPLETADA'' @ endl)
        (print Cout ([CHR 0x0A] @ ''========================================'' @ endl)
          (print Cout ([CHR 0x0A] @ check_mark @ '' Verifica el archivo '' @ [CHR 0x27]
                         @ ''system.log'' @ [CHR 0x27] @ '' para ver los registros completos.'' @ endl)
            ?w5)))"
  have "demostracion L (w, SystemMonitor_ctor) = Inr (?w9, ?T)"
    unfolding demostracion_def Let_def fst_conv snd_conv p1 p2 p3 sum.case m4 ..
  moreover have "last (logfile ?w9)
            = (INFO, ''M'' @ e_acute @ ''tricas - Total: 11 | Exitosas: 5 | Fallidas: 6 | Tasa de ''
                 @ e_acute @ ''xito: ''
                 @ put_double L default_flags (Finite False (6397158561605818 / 2 ^ 47)) @ ''%'')"
    by (simp add: logfile_showMetrics logfile_logMetrics put_int_digits tasa_5_de_11)
  moreover have "(Cout, ''Total de operaciones: 11'' @ endl) \<in> set (console ?w9)"
    "(Cout, ''Operaciones exitosas: 5'' @ endl) \<in> set (console ?w9)"
    "(Cout, ''Operaciones fallidas: 6'' @ endl) \<in> set (console ?w9)"
    "(Cout, ''Tasa de '' @ e_acute @ ''xito: ''
                @ put_double L \<lparr>float_notation = fixed_notation, precision = 2\<rparr>
                    (Finite False (6397158561605818 / 2 ^ 47))
                @ ''%'' @ endl) \<in> set (console ?w9)"
    by (simp_all add: console_showMetrics put_int_digits tasa_5_de_11)
  ultimately show ?thesis by blast
qed

text \<open>
  C9. The whole demonstration (the three single trials 10/0, -5/2 and 100/5, then the
  batch of eight pairs) ends normally, with exit code 0 and with total 11, 5 successes
  and 6 failures in the monitor: the trials are counted in the monitor that the batch
  uses. That tally is the one \<open>showMetrics\<close> reports at the end of \<open>main\<close>, on the
  console and in the log entry that comes before the closing one, and it is not the
  tally \<open>{8,4,4}\<close> of the batch alone.
\<close>

theorem demonstration_final_tally:
  "(\<exists>w'. demostracion L (log' INFO ''Sistema iniciado'' w, SystemMonitor_ctor)
            = Inr (w', \<lparr>totalOperations = 11, successfulOperations = 5, failedOperations = 6\<rparr>)
         \<and> main L True w = (0, Logger_dtor w'))
   \<and> fst (main L True w) = 0
   \<and> last (logfile (snd (main L True w))) = (INFO, ''Sistema finalizado'')
   \<and> last (butlast (logfile (snd (main L True w))))
        = (INFO, ''M'' @ e_acute @ ''tricas - Total: 11 | Exitosas: 5 | Fallidas: 6 | Tasa de ''
             @ e_acute @ ''xito: ''
             @ put_double L default_flags (Finite False (6397158561605818 / 2 ^ 47)) @ ''%'')
   \<and> (Cout, ''Total de operaciones: 11'' @ endl) \<in> set (console (snd (main L True w)))
   \<and> (Cout, ''Operaciones exitosas: 5'' @ endl) \<in> set (console (snd (main L True w)))
   \<and> (Cout, ''Operaciones fallidas: 6'' @ endl) \<in> set (console (snd (main L True w)))
   \<and> (Cout, ''Tasa de '' @ e_acute @ ''xito: ''
          @ put_double L \<lparr>float_notation = fixed_notation, precision = 2\<rparr>
              (Finite False (6397158561605818 / 2 ^ 47))
          @ ''%'' @ endl) \<in> set (console (snd (main L True w)))
   \<and> \<lparr>totalOperations = 11, successfulOperations = 5, failedOperations = 6\<rparr>
       \<noteq> \<lparr>totalOperations = 8, successfulOperations = 4, failedOperations = (4::int32)\<rparr>"
proof -
  obtain w' where d: "demostracion L (log' INFO ''Sistema iniciado'' w, SystemMonitor_ctor)
            = Inr (w', \<lparr>totalOperations = 11, successfulOperations = 5, failedOperations = 6\<rparr>)"
    and l: "last (logfile w')
            = (INFO, ''M'' @ e_acute @ ''tricas - Total: 11 | Exitosas: 5 | Fallidas: 6 | Tasa de ''
                 @ e_acute @ ''xito: ''
                 @ put_double L default_flags (Finite False (6397158561605818 / 2 ^ 47)) @ ''%'')"
    and c: "(Cout, ''Total de operaciones: 11'' @ endl) \<in> set (console w')"
      "(Cout, ''Operaciones exitosas: 5'' @ endl) \<in> set (console w')"
      "(Cout, ''Operaciones fallidas: 6'' @ endl) \<in> set (console w')"
      "(Cout, ''Tasa de '' @ e_acute @ ''xito: ''
                @ put_double L \<lparr>float_notation = fixed_notation, precision = 2\<rparr>
                    (Finite False (6397158561605818 / 2 ^ 47))
                @ ''%'' @ endl) \<in> set (console w')"
    using demostracion_result [of L "log' INFO ''Sistema iniciado'' w"] by blast
  have m: "main L True w = (0, Logger_dtor w')"
    by (simp add: main_def Logger_ctor_def d)
  have "last (logfile (Logger_dtor w')) = (INFO, ''Sistema finalizado'')"
    "last (butlast (logfile (Logger_dtor w'))) = last (logfile w')"
    "console (Logger_dtor w') = console w'"
    by (simp_all add: Logger_dtor_def)
  with d l c m show ?thesis by (simp del: append.simps)
qed

text \<open>
  C7. \<open>logMetrics\<close> appends one \<open>INFO\<close> entry with the three counts and the rate. At
  total 3, 1 success and 2 failures the rate, the double nearest to 100/3, is written
  with the flags of a fresh stream, the default notation at precision 6, while
  \<open>showMetrics\<close> writes the same rate on the console in fixed notation at precision 2:
  the two-decimal rendering is that of the console line and not that of the log entry.
\<close>

theorem logMetrics_default_format:
  "logfile (logMetrics L 3 1 2 w)
     = logfile w @
       [(INFO, ''M'' @ e_acute @ ''tricas - Total: 3 | Exitosas: 1 | Fallidas: 2 | Tasa de ''
           @ e_acute @ ''xito: ''
           @ put_double L \<lparr>float_notation = default_notation, precision = 6\<rparr>
               (Finite False (4691249611844267 / 2 ^ 47))
           @ ''%'')]
   \<and> (Cout, ''Tasa de '' @ e_acute @ ''xito: ''
           @ put_double L \<lparr>float_notation = fixed_notation, precision = 2\<rparr>
               (Finite False (4691249611844267 / 2 ^ 47))
           @ ''%'' @ endl)
       \<in> set (console (showMetrics L
            \<lparr>totalOperations = 3, successfulOperations = 1, failedOperations = 2\<rparr> w))"
  by (simp add: logfile_logMetrics console_showMetrics put_int_digits default_flags_def tasa_1_de_3)

end
